theory Spec2Isabelle
  imports
    Main
    "HOL-Library.Char_ord"
    "HOL-Library.List_Lexorder"
    "HOL-Library.Product_Lexorder"
    "HOL-Library.AList"
begin

section \<open>Python values and primitives\<close>

text \<open>
  A Python \<^verbatim>\<open>str\<close> is modelled as a \<^typ>\<open>string\<close>: a list of code points below 256.
  Comparison of strings is lexicographic by code point, as Python's is.

  Event payloads are what \<^verbatim>\<open>json.loads\<close> produces and what a JSON column gives back:
  \<^verbatim>\<open>None\<close>, booleans, integers, floats, strings, lists and dicts with string keys.
  A dict is an association list in insertion order; lookup takes the first binding of a
  key. A float is carried as the text \<^verbatim>\<open>float.__repr__\<close> gives for it, the only
  observation the code makes of a float (through \<^verbatim>\<open>json.dumps\<close>).
  Python's \<^verbatim>\<open>None\<close> is \<open>JNull\<close>: the JSON null and the "no value" result of a function
  are one and the same object.
\<close>

datatype json =
    JNull
  | JBool bool
  | JInt int
  | JFloat string
  | JStr string
  | JArr "json list"
  | JObj "(string \<times> json) list"

datatype error =
    TypeError
  | KeyError string
  | AttributeError
  | ValueError string
  | HTTPException nat string

fun isinstance_dict :: "json \<Rightarrow> bool" where
  "isinstance_dict (JObj kvs) = True"
| "isinstance_dict v = False"

fun isinstance_str :: "json \<Rightarrow> bool" where
  "isinstance_str (JStr s) = True"
| "isinstance_str v = False"

fun isinstance_list :: "json \<Rightarrow> bool" where
  "isinstance_list (JArr xs) = True"
| "isinstance_list v = False"

text \<open>\<^verbatim>\<open>needle in haystack\<close> on two strings: a contiguous occurrence.\<close>

fun starts_with :: "string \<Rightarrow> string \<Rightarrow> bool" where
  "starts_with [] hay = True"
| "starts_with (c # cs) [] = False"
| "starts_with (c # cs) (h # hs) = (c = h \<and> starts_with cs hs)"

fun str_in :: "string \<Rightarrow> string \<Rightarrow> bool" where
  "str_in needle [] = (needle = [])"
| "str_in needle (h # hs) = (starts_with needle (h # hs) \<or> str_in needle hs)"

text \<open>
  \<^verbatim>\<open>key in container\<close> with a string key. On a dict it tests the keys, on a list the
  elements, on a string it is the substring test; on \<^verbatim>\<open>None\<close>, a bool or a number it
  raises \<^verbatim>\<open>TypeError\<close> (argument is not iterable).
\<close>

fun py_in :: "string \<Rightarrow> json \<Rightarrow> error + bool" where
  "py_in k (JObj kvs) = Inr (map_of kvs k \<noteq> None)"
| "py_in k (JArr xs) = Inr (JStr k \<in> set xs)"
| "py_in k (JStr s) = Inr (str_in k s)"
| "py_in k v = Inl TypeError"

text \<open>
  \<^verbatim>\<open>container[key]\<close> with a string key: \<^verbatim>\<open>KeyError\<close> on a dict without the key,
  \<^verbatim>\<open>TypeError\<close> on everything that is not a dict (a list or a string wants an integer
  index, the rest is not subscriptable).
\<close>

fun py_getitem :: "json \<Rightarrow> string \<Rightarrow> error + json" where
  "py_getitem (JObj kvs) k = (case map_of kvs k of None \<Rightarrow> Inl (KeyError k) | Some v \<Rightarrow> Inr v)"
| "py_getitem v k = Inl TypeError"

text \<open>\<^verbatim>\<open>d.get(key)\<close>: \<^verbatim>\<open>None\<close> for a missing key; only a dict has the method.\<close>

fun py_get :: "json \<Rightarrow> string \<Rightarrow> error + json" where
  "py_get (JObj kvs) k = (case map_of kvs k of None \<Rightarrow> Inr JNull | Some v \<Rightarrow> Inr v)"
| "py_get v k = Inl AttributeError"

text \<open>\<^verbatim>\<open>s.split(".")\<close>: the pieces between the dots, empty pieces included.\<close>

fun split_on :: "char \<Rightarrow> string \<Rightarrow> string list" where
  "split_on sep [] = [[]]"
| "split_on sep (c # cs) =
     (if c = sep then [] # split_on sep cs
      else (case split_on sep cs of [] \<Rightarrow> [[c]] | p # ps \<Rightarrow> (c # p) # ps))"

text \<open>\<^verbatim>\<open>s.lower()\<close> on code points below 256: A-Z, and the Latin-1 capitals.\<close>

definition lower_char :: "char \<Rightarrow> char" where
  "lower_char c =
     (let n = (of_char c :: nat) in
      if (65 \<le> n \<and> n \<le> 90) \<or> (192 \<le> n \<and> n \<le> 222 \<and> n \<noteq> 215) then char_of (n + 32) else c)"

definition lower :: "string \<Rightarrow> string" where
  "lower s = map lower_char s"

subsection \<open>Decimal text and \<^verbatim>\<open>json.dumps\<close>\<close>

definition digit_char :: "nat \<Rightarrow> char" where
  "digit_char d = char_of (48 + d)"

fun nat_str :: "nat \<Rightarrow> string" where
  "nat_str n = (if n < 10 then [digit_char n] else nat_str (n div 10) @ [digit_char (n mod 10)])"

declare nat_str.simps [simp del]

definition int_str :: "int \<Rightarrow> string" where
  "int_str i = (if i < 0 then CHR ''-'' # nat_str (nat (- i)) else nat_str (nat i))"

definition hex_char :: "nat \<Rightarrow> char" where
  "hex_char d = (if d < 10 then char_of (48 + d) else char_of (87 + d))"

text \<open>
  The escapes of \<^verbatim>\<open>json.encoder\<close> with \<^verbatim>\<open>ensure_ascii=False\<close>: backslash, double quote,
  the five named control characters, \<^verbatim>\<open>\u00XX\<close> for the other code points below 32.
\<close>

definition escape_char :: "char \<Rightarrow> string" where
  "escape_char c =
     (let n = (of_char c :: nat) in
      if n = 92 then [char_of (92::nat), char_of (92::nat)]
      else if n = 34 then [char_of (92::nat), char_of (34::nat)]
      else if n = 8 then [char_of (92::nat), CHR ''b'']
      else if n = 12 then [char_of (92::nat), CHR ''f'']
      else if n = 10 then [char_of (92::nat), CHR ''n'']
      else if n = 13 then [char_of (92::nat), CHR ''r'']
      else if n = 9 then [char_of (92::nat), CHR ''t'']
      else if n < 32 then
        [char_of (92::nat), CHR ''u'', CHR ''0'', CHR ''0'', hex_char (n div 16), hex_char (n mod 16)]
      else [c])"

definition json_quote :: "string \<Rightarrow> string" where
  "json_quote s = [char_of (34::nat)] @ concat (map escape_char s) @ [char_of (34::nat)]"

fun join :: "string \<Rightarrow> string list \<Rightarrow> string" where
  "join sep [] = []"
| "join sep [x] = x"
| "join sep (x # y # ys) = x @ sep @ join sep (y # ys)"

text \<open>
  \<^verbatim>\<open>json.dumps(value, ensure_ascii=False)\<close>: the compact form with the default
  separators \<^verbatim>\<open>", "\<close> and \<^verbatim>\<open>": "\<close>.
\<close>

fun json_dumps :: "json \<Rightarrow> string" where
  "json_dumps JNull = ''null''"
| "json_dumps (JBool b) = (if b then ''true'' else ''false'')"
| "json_dumps (JInt i) = int_str i"
| "json_dumps (JFloat repr) = repr"
| "json_dumps (JStr s) = json_quote s"
| "json_dumps (JArr xs) = ''['' @ join '', '' (map json_dumps xs) @ '']''"
| "json_dumps (JObj kvs) =
     ''{'' @ join '', '' (map (\<lambda>kv. json_quote (fst kv) @ '': '' @ json_dumps (snd kv)) kvs) @ ''}''"

section \<open>models.py\<close>

text \<open>
  A \<^verbatim>\<open>datetime\<close> as a DateTime column gives it back: the seven calendar fields, no
  time zone. Python compares two of them field by field, the year first.
\<close>

record datetime =
  dt_year :: nat
  dt_month :: nat
  dt_day :: nat
  dt_hour :: nat
  dt_minute :: nat
  dt_second :: nat
  dt_microsecond :: nat

definition dt_key :: "datetime \<Rightarrow> nat \<times> nat \<times> nat \<times> nat \<times> nat \<times> nat \<times> nat" where
  "dt_key d =
     (dt_year d, dt_month d, dt_day d, dt_hour d, dt_minute d, dt_second d, dt_microsecond d)"

text \<open>The ranges the \<^verbatim>\<open>datetime\<close> constructor accepts (the day bound is the weakest one).\<close>

definition valid_datetime :: "datetime \<Rightarrow> bool" where
  "valid_datetime d \<longleftrightarrow>
     1 \<le> dt_year d \<and> dt_year d \<le> 9999 \<and> 1 \<le> dt_month d \<and> dt_month d \<le> 12 \<and>
     1 \<le> dt_day d \<and> dt_day d \<le> 31 \<and> dt_hour d < 24 \<and> dt_minute d < 60 \<and>
     dt_second d < 60 \<and> dt_microsecond d < 1000000"

record event =
  ev_id :: string
  ev_received_at :: datetime
  ev_source :: string
  ev_host :: "string option"
  ev_user :: "string option"
  ev_raw :: json

record rule =
  r_id :: string
  r_created_at :: datetime
  r_name :: string
  r_severity :: string
  r_mitre :: "string list"
  r_description :: string
  r_match_source :: string
  r_match_field :: string
  r_match_contains :: string

record alert =
  a_id :: string
  a_created_at :: datetime
  a_rule_id :: string
  a_rule_name :: string
  a_severity :: string
  a_event_id :: string
  a_source :: string
  a_host :: "string option"
  a_user :: "string option"
  a_summary :: string

record incident =
  inc_id :: string
  inc_created_at :: datetime
  inc_updated_at :: datetime
  inc_title :: string
  inc_severity :: string
  inc_status :: string
  inc_description :: string

record incident_alert =
  ia_incident_id :: string
  ia_alert_id :: string
  ia_added_at :: datetime

record evidence_file =
  ef_id :: string
  ef_incident_id :: string
  ef_created_at :: datetime
  ef_filename :: string
  ef_content_type :: string
  ef_sha256 :: string
  ef_size_bytes :: nat

record incident_action =
  act_id :: string
  act_incident_id :: string
  act_created_at :: datetime
  act_actor :: "string option"
  act_action_type :: string
  act_summary :: string
  act_details :: json

text \<open>
  The database behind a \<^verbatim>\<open>Session\<close>: one list of rows per table, in insertion order,
  and the files under \<^verbatim>\<open>EVIDENCE_DIR\<close>. A session flushes its pending rows before each
  of its queries, so a row added by \<^verbatim>\<open>session.add\<close> is in the table for the queries
  that follow, and \<^verbatim>\<open>session.commit\<close> changes no table. The two sources of fresh
  values are part of the state: \<open>clock\<close> is what \<^verbatim>\<open>utc_now()\<close> reads, \<open>uuid_ctr\<close>
  numbers the calls of \<^verbatim>\<open>uuid4()\<close>.
\<close>

record store =
  rules :: "rule list"
  events :: "event list"
  alerts :: "alert list"
  incidents :: "incident list"
  incident_alerts :: "incident_alert list"
  incident_actions :: "incident_action list"
  evidence_files :: "evidence_file list"
  files :: "(string \<times> string) list"
  clock :: datetime
  uuid_ctr :: nat

definition utc_now :: "store \<Rightarrow> datetime" where
  "utc_now s = clock s"

definition uuid4 :: "store \<Rightarrow> string \<times> store" where
  "uuid4 s = (''uuid-'' @ nat_str (uuid_ctr s), s\<lparr>uuid_ctr := Suc (uuid_ctr s)\<rparr>)"

text \<open>\<^verbatim>\<open>order_by(col.asc())\<close> and \<^verbatim>\<open>order_by(col.desc())\<close> on a datetime column.\<close>

definition order_asc :: "('a \<Rightarrow> datetime) \<Rightarrow> 'a list \<Rightarrow> 'a list" where
  "order_asc col rows = sort_key (\<lambda>x. dt_key (col x)) rows"

definition order_desc :: "('a \<Rightarrow> datetime) \<Rightarrow> 'a list \<Rightarrow> 'a list" where
  "order_desc col rows = rev (sort_key (\<lambda>x. dt_key (col x)) rows)"

text \<open>A loop whose body may raise: the first exception ends it.\<close>

fun for_each :: "('a \<Rightarrow> 's \<Rightarrow> error + 's) \<Rightarrow> 'a list \<Rightarrow> 's \<Rightarrow> error + 's" where
  "for_each body [] s = Inr s"
| "for_each body (x # xs) s =
     (case body x s of Inl e \<Rightarrow> Inl e | Inr s' \<Rightarrow> for_each body xs s')"

section \<open>detect.py\<close>

subsection \<open>\<^verbatim>\<open>_get_by_path\<close>\<close>

text \<open>
  The loop over \<^verbatim>\<open>path.split(".")\<close>. The test \<^verbatim>\<open>isinstance(cur, dict) and part in cur\<close>
  short-circuits; \<^verbatim>\<open>cur[part]\<close> is evaluated in the true branch only; the else branch
  returns \<^verbatim>\<open>None\<close> at once.
\<close>

fun get_by_path_loop :: "json \<Rightarrow> string list \<Rightarrow> error + json" where
  "get_by_path_loop cur [] = Inr cur"
| "get_by_path_loop cur (part # parts) =
     (if isinstance_dict cur then
        (case py_in part cur of
           Inl e \<Rightarrow> Inl e
         | Inr False \<Rightarrow> Inr JNull
         | Inr True \<Rightarrow>
             (case py_getitem cur part of
                Inl e \<Rightarrow> Inl e
              | Inr v \<Rightarrow> get_by_path_loop v parts))
      else Inr JNull)"

definition get_by_path :: "json \<Rightarrow> string \<Rightarrow> error + json" where
  "get_by_path obj path = get_by_path_loop obj (split_on CHR ''.'' path)"

subsection \<open>\<^verbatim>\<open>run_detections\<close>\<close>

text \<open>
  The matcher: the three \<^verbatim>\<open>continue\<close> tests at the head of the inner loop body
  (source filter, field resolution, substring test). \<open>Inr True\<close> means the body goes on
  to the existence check.
\<close>

definition haystack_of :: "json \<Rightarrow> string" where
  "haystack_of v = (case v of JStr s \<Rightarrow> s | _ \<Rightarrow> json_dumps v)"

definition rule_matches :: "rule \<Rightarrow> event \<Rightarrow> error + bool" where
  "rule_matches r ev =
     (if r_match_source r \<noteq> [] \<and> r_match_source r \<noteq> ''*'' \<and> r_match_source r \<noteq> ev_source ev
      then Inr False
      else
        (case get_by_path (ev_raw ev) (r_match_field r) of
           Inl e \<Rightarrow> Inl e
         | Inr v \<Rightarrow>
             if v = JNull then Inr False
             else if \<not> str_in (lower (r_match_contains r)) (lower (haystack_of v)) then Inr False
             else Inr True))"

definition alert_summary :: "rule \<Rightarrow> string" where
  "alert_summary r =
     r_name r @ '': '' @ r_match_field r @ '' matched '' @ [char_of (39::nat)]
       @ r_match_contains r @ [char_of (39::nat)]"

definition new_alert :: "rule \<Rightarrow> event \<Rightarrow> store \<Rightarrow> store" where
  "new_alert r ev s =
     (let (uid, s1) = uuid4 s;
          a = \<lparr> a_id = uid, a_created_at = utc_now s1, a_rule_id = r_id r, a_rule_name = r_name r,
                a_severity = r_severity r, a_event_id = ev_id ev, a_source = ev_source ev,
                a_host = ev_host ev, a_user = ev_user ev, a_summary = alert_summary r \<rparr>
      in s1\<lparr>alerts := alerts s1 @ [a]\<rparr>)"

definition detect_pair :: "event \<Rightarrow> rule \<Rightarrow> nat \<times> store \<Rightarrow> error + (nat \<times> store)" where
  "detect_pair ev r cs =
     (case rule_matches r ev of
        Inl e \<Rightarrow> Inl e
      | Inr False \<Rightarrow> Inr cs
      | Inr True \<Rightarrow>
          (case find (\<lambda>a. a_event_id a = ev_id ev \<and> a_rule_id a = r_id r) (alerts (snd cs)) of
             Some existing \<Rightarrow> Inr cs
           | None \<Rightarrow> Inr (fst cs + 1, new_alert r ev (snd cs))))"

definition run_detections :: "store \<Rightarrow> nat \<Rightarrow> error + (nat \<times> store)" where
  "run_detections s limit =
     (let rs = order_desc r_created_at (rules s) in
      if rs = [] then Inr (0, s)
      else
        let evs = take limit (order_desc ev_received_at (events s)) in
        for_each (\<lambda>ev. for_each (\<lambda>r. detect_pair ev r) rs) evs (0, s))"

section \<open>reporting.py\<close>

subsection \<open>\<^verbatim>\<open>_safe_iso\<close>\<close>

text \<open>
  \<^verbatim>\<open>"%0wd" % n\<close>: at least \<open>w\<close> decimal digits, zeros in front.
\<close>

fun fixed_digits :: "nat \<Rightarrow> nat \<Rightarrow> string" where
  "fixed_digits 0 n = []"
| "fixed_digits (Suc w) n = fixed_digits w (n div 10) @ [digit_char (n mod 10)]"

definition zpad :: "nat \<Rightarrow> nat \<Rightarrow> string" where
  "zpad w n = (if n < 10 ^ w then fixed_digits w n else nat_str n)"

text \<open>
  \<^verbatim>\<open>datetime.isoformat()\<close> of a datetime without time zone:
  \<^verbatim>\<open>YYYY-MM-DDTHH:MM:SS\<close>, followed by \<^verbatim>\<open>.ffffff\<close> when the microsecond is not zero.
\<close>

definition microsecond_suffix :: "nat \<Rightarrow> string" where
  "microsecond_suffix us = (if us = 0 then [] else ''.'' @ zpad 6 us)"

definition isoformat :: "datetime \<Rightarrow> string" where
  "isoformat d =
     zpad 4 (dt_year d) @ ''-'' @ zpad 2 (dt_month d) @ ''-'' @ zpad 2 (dt_day d) @ ''T'' @
     zpad 2 (dt_hour d) @ '':'' @ zpad 2 (dt_minute d) @ '':'' @ zpad 2 (dt_second d) @
     microsecond_suffix (dt_microsecond d)"

text \<open>
  Every value the packet builder hands to \<^verbatim>\<open>_safe_iso\<close> is a datetime column of a
  row, so the \<^verbatim>\<open>isinstance(dt, datetime)\<close> branch is the one taken.
\<close>

definition safe_iso :: "datetime \<Rightarrow> string" where
  "safe_iso dt = isoformat dt"

subsection \<open>\<^verbatim>\<open>_event_summary\<close> and \<^verbatim>\<open>_extract_ips\<close>\<close>

text \<open>\<^verbatim>\<open>s.strip()\<close>: the white space of \<^verbatim>\<open>str.isspace\<close> among the code points below 256.\<close>

definition is_space :: "char \<Rightarrow> bool" where
  "is_space c =
     (let n = (of_char c :: nat) in
      (9 \<le> n \<and> n \<le> 13) \<or> (28 \<le> n \<and> n \<le> 32) \<or> n = 133 \<or> n = 160)"

definition strip :: "string \<Rightarrow> string" where
  "strip s = rev (dropWhile is_space (rev (dropWhile is_space s)))"

definition summary_keys :: "string list" where
  "summary_keys = [''message'', ''summary'', ''event'', ''msg'', ''log'', ''description'']"

fun event_summary_loop :: "json \<Rightarrow> string list \<Rightarrow> error + string" where
  "event_summary_loop raw [] = Inr (take 220 (json_dumps raw))"
| "event_summary_loop raw (k # ks) =
     (case py_get raw k of
        Inl e \<Rightarrow> Inl e
      | Inr v \<Rightarrow>
          (case v of
             JStr t \<Rightarrow> if strip t \<noteq> [] then Inr (take 220 (strip t)) else event_summary_loop raw ks
           | _ \<Rightarrow> event_summary_loop raw ks))"

definition event_summary :: "json \<Rightarrow> error + string" where
  "event_summary raw = event_summary_loop raw summary_keys"

definition ip_keys :: "string list" where
  "ip_keys = [''src_ip'', ''source_ip'', ''client_ip'', ''remote_ip'', ''ip'', ''src'', ''dst_ip'', ''dest_ip'']"

text \<open>What one probed value appends to \<^verbatim>\<open>ips\<close>: the \<^verbatim>\<open>if\<close>/\<^verbatim>\<open>elif\<close> of the loop body.\<close>

fun ips_of_item :: "json \<Rightarrow> string list" where
  "ips_of_item (JStr t) = (if strip t \<noteq> [] then [strip t] else [])"
| "ips_of_item v = []"

fun ips_of_value :: "json \<Rightarrow> string list" where
  "ips_of_value (JStr t) = (if strip t \<noteq> [] then [strip t] else [])"
| "ips_of_value (JArr items) = concat (map ips_of_item items)"
| "ips_of_value v = []"

fun extract_ips_loop :: "json \<Rightarrow> string list \<Rightarrow> string list \<Rightarrow> error + string list" where
  "extract_ips_loop raw [] ips = Inr ips"
| "extract_ips_loop raw (k # ks) ips =
     (case py_get raw k of
        Inl e \<Rightarrow> Inl e
      | Inr v \<Rightarrow> extract_ips_loop raw ks (ips @ ips_of_value v))"

text \<open>The de-duplication loop: \<^verbatim>\<open>seen\<close> is a set, \<^verbatim>\<open>out\<close> grows at its end.\<close>

fun dedupe_loop :: "string list \<Rightarrow> string set \<Rightarrow> string list \<Rightarrow> string list" where
  "dedupe_loop [] seen out = out"
| "dedupe_loop (ip # ips) seen out =
     (if ip \<in> seen then dedupe_loop ips seen out
      else dedupe_loop ips (insert ip seen) (out @ [ip]))"

definition extract_ips :: "json \<Rightarrow> error + string list" where
  "extract_ips raw =
     (case extract_ips_loop raw ip_keys [] of
        Inl e \<Rightarrow> Inl e
      | Inr ips \<Rightarrow> Inr (dedupe_loop ips {} []))"

subsection \<open>\<^verbatim>\<open>build_incident_packet\<close>\<close>

text \<open>The inner function \<^verbatim>\<open>_uniq\<close>: as the loop above, and it skips the empty string.\<close>

fun uniq_loop :: "string list \<Rightarrow> string set \<Rightarrow> string list \<Rightarrow> string list" where
  "uniq_loop [] seen out = out"
| "uniq_loop (x # items) seen out =
     (if x = [] then uniq_loop items seen out
      else if x \<in> seen then uniq_loop items seen out
      else uniq_loop items (insert x seen) (out @ [x]))"

definition uniq :: "string list \<Rightarrow> string list" where
  "uniq items = uniq_loop items {} []"

text \<open>
  \<^verbatim>\<open>min(times)\<close> and \<^verbatim>\<open>max(times)\<close>: \<^verbatim>\<open>ValueError\<close> on the empty list, else the first
  least (greatest) element.
\<close>

fun py_min :: "datetime list \<Rightarrow> error + datetime" where
  "py_min [] = Inl (ValueError ''min() iterable argument is empty'')"
| "py_min (x # xs) = Inr (foldl (\<lambda>m y. if dt_key y < dt_key m then y else m) x xs)"

fun py_max :: "datetime list \<Rightarrow> error + datetime" where
  "py_max [] = Inl (ValueError ''max() iterable argument is empty'')"
| "py_max (x # xs) = Inr (foldl (\<lambda>m y. if dt_key m < dt_key y then y else m) x xs)"

text \<open>A dict built by a comprehension: a later pair with a key already there replaces its value.\<close>

definition dict_of :: "('k \<times> 'v) list \<Rightarrow> ('k \<times> 'v) list" where
  "dict_of kvs = foldl (\<lambda>d kv. AList.update (fst kv) (snd kv) d) [] kvs"

record timeline_entry =
  te_time :: string
  te_type :: string
  te_source :: string
  te_host :: "string option"
  te_user :: "string option"
  te_summary :: string

record scope_lists =
  sl_times :: "datetime list"
  sl_hosts :: "string list"
  sl_users :: "string list"
  sl_sources :: "string list"
  sl_ips :: "string list"

record scope =
  sc_start :: string
  sc_end :: string
  sc_hosts :: "string list"
  sc_users :: "string list"
  sc_sources :: "string list"
  sc_ips :: "string list"

record incident_view =
  iv_id :: string
  iv_title :: string
  iv_severity :: string
  iv_status :: string
  iv_created_at :: string
  iv_updated_at :: string
  iv_description :: string

record alert_view =
  av_id :: string
  av_created_at :: string
  av_severity :: string
  av_rule_name :: string
  av_summary :: string
  av_event_id :: string
  av_host :: "string option"
  av_user :: "string option"
  av_source :: string

record action_view =
  cv_id :: string
  cv_incident_id :: string
  cv_created_at :: string
  cv_actor :: "string option"
  cv_action_type :: string
  cv_summary :: string
  cv_details :: json

record packet =
  pk_incident :: incident_view
  pk_scope :: scope
  pk_alerts :: "alert_view list"
  pk_timeline :: "timeline_entry list"
  pk_actions :: "action_view list"

text \<open>The join of Alert with IncidentAlert, filtered by incident, ordered by creation time.\<close>

definition linked_alerts :: "store \<Rightarrow> string \<Rightarrow> alert list" where
  "linked_alerts s incident_id =
     order_asc a_created_at
       (concat (map (\<lambda>a. map (\<lambda>l. a)
          (filter (\<lambda>l. ia_alert_id l = a_id a \<and> ia_incident_id l = incident_id) (incident_alerts s)))
          (alerts s)))"

definition events_by_id_of :: "store \<Rightarrow> alert list \<Rightarrow> (string \<times> event) list" where
  "events_by_id_of s als =
     (let event_ids = map a_event_id (filter (\<lambda>a. a_event_id a \<noteq> []) als) in
      if event_ids = [] then []
      else dict_of (map (\<lambda>e. (ev_id e, e)) (filter (\<lambda>e. ev_id e \<in> set event_ids) (events s))))"

text \<open>\<^verbatim>\<open>if x: xs.append(x)\<close> for an optional string: \<^verbatim>\<open>None\<close> and \<^verbatim>\<open>""\<close> are falsy.\<close>

fun append_truthy :: "string list \<Rightarrow> string option \<Rightarrow> string list" where
  "append_truthy xs None = xs"
| "append_truthy xs (Some x) = (if x = [] then xs else xs @ [x])"

definition scope_step :: "(string \<times> event) list \<Rightarrow> alert \<Rightarrow> scope_lists \<Rightarrow> error + scope_lists" where
  "scope_step events_by_id a acc =
     (let acc1 = acc\<lparr> sl_times := sl_times acc @ [a_created_at a],
                      sl_hosts := append_truthy (sl_hosts acc) (a_host a),
                      sl_users := append_truthy (sl_users acc) (a_user a),
                      sl_sources := append_truthy (sl_sources acc) (Some (a_source a)) \<rparr>
      in case map_of events_by_id (a_event_id a) of
           None \<Rightarrow> Inr acc1
         | Some ev \<Rightarrow>
             (let acc2 = acc1\<lparr> sl_times := sl_times acc1 @ [ev_received_at ev],
                               sl_hosts := append_truthy (sl_hosts acc1) (ev_host ev),
                               sl_users := append_truthy (sl_users acc1) (ev_user ev),
                               sl_sources := append_truthy (sl_sources acc1) (Some (ev_source ev)) \<rparr>
              in if isinstance_dict (ev_raw ev) then
                   (case extract_ips (ev_raw ev) of
                      Inl e \<Rightarrow> Inl e
                    | Inr found \<Rightarrow> Inr (acc2\<lparr> sl_ips := sl_ips acc2 @ found \<rparr>))
                 else Inr acc2))"

definition alert_entry :: "alert \<Rightarrow> timeline_entry" where
  "alert_entry a =
     \<lparr> te_time = safe_iso (a_created_at a), te_type = ''alert'', te_source = a_source a,
       te_host = a_host a, te_user = a_user a,
       te_summary = ''['' @ a_severity a @ ''] '' @ a_rule_name a @ '': '' @ a_summary a \<rparr>"

definition event_entry :: "event \<Rightarrow> string \<Rightarrow> timeline_entry" where
  "event_entry ev summary =
     \<lparr> te_time = safe_iso (ev_received_at ev), te_type = ''event'', te_source = ev_source ev,
       te_host = ev_host ev, te_user = ev_user ev, te_summary = summary \<rparr>"

definition timeline_step ::
  "(string \<times> event) list \<Rightarrow> alert \<Rightarrow> timeline_entry list \<Rightarrow> error + timeline_entry list" where
  "timeline_step events_by_id a timeline =
     (let timeline1 = timeline @ [alert_entry a] in
      case map_of events_by_id (a_event_id a) of
        None \<Rightarrow> Inr timeline1
      | Some ev \<Rightarrow>
          if isinstance_dict (ev_raw ev) then
            (case event_summary (ev_raw ev) of
               Inl e \<Rightarrow> Inl e
             | Inr summary \<Rightarrow> Inr (timeline1 @ [event_entry ev summary]))
          else Inr timeline1)"

definition time_window :: "incident \<Rightarrow> datetime list \<Rightarrow> error + (datetime \<times> datetime)" where
  "time_window inc tms =
     (if tms = [] then Inr (inc_created_at inc, inc_updated_at inc)
      else
        (case py_min tms of
           Inl e \<Rightarrow> Inl e
         | Inr start \<Rightarrow>
             (case py_max tms of Inl e \<Rightarrow> Inl e | Inr stop \<Rightarrow> Inr (start, stop))))"

definition incident_view_of :: "incident \<Rightarrow> incident_view" where
  "incident_view_of inc =
     \<lparr> iv_id = inc_id inc, iv_title = inc_title inc, iv_severity = inc_severity inc,
       iv_status = inc_status inc, iv_created_at = safe_iso (inc_created_at inc),
       iv_updated_at = safe_iso (inc_updated_at inc), iv_description = inc_description inc \<rparr>"

definition alert_view_of :: "alert \<Rightarrow> alert_view" where
  "alert_view_of a =
     \<lparr> av_id = a_id a, av_created_at = safe_iso (a_created_at a), av_severity = a_severity a,
       av_rule_name = a_rule_name a, av_summary = a_summary a, av_event_id = a_event_id a,
       av_host = a_host a, av_user = a_user a, av_source = a_source a \<rparr>"

definition action_view_of :: "incident_action \<Rightarrow> action_view" where
  "action_view_of act =
     \<lparr> cv_id = act_id act, cv_incident_id = act_incident_id act,
       cv_created_at = safe_iso (act_created_at act), cv_actor = act_actor act,
       cv_action_type = act_action_type act, cv_summary = act_summary act,
       cv_details = act_details act \<rparr>"

definition build_incident_packet :: "store \<Rightarrow> string \<Rightarrow> error + packet" where
  "build_incident_packet s incident_id =
     (case find (\<lambda>i. inc_id i = incident_id) (incidents s) of
        None \<Rightarrow> Inl (ValueError ''incident not found'')
      | Some inc \<Rightarrow>
          (let als = linked_alerts s incident_id;
               actions = order_asc act_created_at
                 (filter (\<lambda>x. act_incident_id x = incident_id) (incident_actions s));
               events_by_id = events_by_id_of s als
           in case for_each (scope_step events_by_id) als
                     \<lparr> sl_times = [], sl_hosts = [], sl_users = [], sl_sources = [], sl_ips = [] \<rparr> of
                Inl e \<Rightarrow> Inl e
              | Inr acc \<Rightarrow>
                  (case time_window inc (sl_times acc) of
                     Inl e \<Rightarrow> Inl e
                   | Inr (start, stop) \<Rightarrow>
                       (case for_each (timeline_step events_by_id) als [] of
                          Inl e \<Rightarrow> Inl e
                        | Inr timeline \<Rightarrow>
                            Inr \<lparr> pk_incident = incident_view_of inc,
                                  pk_scope =
                                    \<lparr> sc_start = safe_iso start, sc_end = safe_iso stop,
                                      sc_hosts = uniq (sl_hosts acc), sc_users = uniq (sl_users acc),
                                      sc_sources = uniq (sl_sources acc), sc_ips = uniq (sl_ips acc) \<rparr>,
                                  pk_alerts = map alert_view_of als,
                                  pk_timeline = sort_key te_time timeline,
                                  pk_actions = map action_view_of actions \<rparr>))))"

subsection \<open>\<^verbatim>\<open>write_packet_evidence\<close>\<close>

text \<open>
  \<^verbatim>\<open>json.dumps(packet, indent=2, ensure_ascii=False, default=str)\<close>: one item per line,
  two spaces per level, \<^verbatim>\<open>","\<close> between items and \<^verbatim>\<open>": "\<close> after a key; an empty
  list or dict stays on one line. Every value of \<^typ>\<open>json\<close> serialises, so
  \<^verbatim>\<open>default\<close> is never called.
\<close>

definition newline_indent :: "nat \<Rightarrow> string" where
  "newline_indent level = char_of (10::nat) # replicate (2 * level) CHR '' ''"

fun json_dumps_indent :: "nat \<Rightarrow> json \<Rightarrow> string" where
  "json_dumps_indent level (JArr xs) =
     (if xs = [] then ''[]''
      else ''['' @ newline_indent (Suc level)
        @ join ('','' @ newline_indent (Suc level)) (map (json_dumps_indent (Suc level)) xs)
        @ newline_indent level @ '']'')"
| "json_dumps_indent level (JObj kvs) =
     (if kvs = [] then ''{}''
      else ''{'' @ newline_indent (Suc level)
        @ join ('','' @ newline_indent (Suc level))
            (map (\<lambda>kv. json_quote (fst kv) @ '': '' @ json_dumps_indent (Suc level) (snd kv)) kvs)
        @ newline_indent level @ ''}'')"
| "json_dumps_indent level v = json_dumps v"

text \<open>\<^verbatim>\<open>.encode("utf-8")\<close> on code points below 256: two bytes from 128 on.\<close>

definition utf8_encode :: "string \<Rightarrow> string" where
  "utf8_encode t =
     concat (map (\<lambda>c. let n = (of_char c :: nat) in
                        if n < 128 then [c] else [char_of (192 + n div 64), char_of (128 + n mod 64)]) t)"

definition packet_payload :: "json \<Rightarrow> string" where
  "packet_payload packet = utf8_encode (json_dumps_indent 0 packet)"

definition packet_filename :: "string \<Rightarrow> string" where
  "packet_filename incident_id = incident_id @ ''/incident-packet.json''"

text \<open>
  The digest \<^verbatim>\<open>hashlib.sha256(payload).hexdigest()\<close> is the parameter \<open>sha256_hex\<close>.
  A file of \<^verbatim>\<open>EVIDENCE_DIR\<close> is named by its path below that directory;
  \<^verbatim>\<open>write_bytes\<close> replaces what the file held.
\<close>

definition write_packet_evidence ::
  "(string \<Rightarrow> string) \<Rightarrow> store \<Rightarrow> string \<Rightarrow> json \<Rightarrow> evidence_file list \<times> store" where
  "write_packet_evidence sha256_hex s incident_id packet =
     (let filename_rel = packet_filename incident_id;
          payload = packet_payload packet;
          sha = sha256_hex payload;
          size = length payload;
          s1 = s\<lparr>files := AList.update filename_rel payload (files s)\<rparr>;
          s2 = (case find (\<lambda>e. ef_incident_id e = incident_id \<and> ef_filename e = filename_rel
                                \<and> ef_sha256 e = sha) (evidence_files s1) of
                  Some existing \<Rightarrow> s1
                | None \<Rightarrow>
                    (let (uid, s') = uuid4 s1;
                         ef = \<lparr> ef_id = uid, ef_incident_id = incident_id, ef_created_at = utc_now s',
                                ef_filename = filename_rel, ef_content_type = ''application/json'',
                                ef_sha256 = sha, ef_size_bytes = size \<rparr>
                     in s'\<lparr>evidence_files := evidence_files s' @ [ef]\<rparr>))
      in (order_desc ef_created_at
            (filter (\<lambda>e. ef_incident_id e = incident_id) (evidence_files s2)), s2))"

text \<open>The dict literal \<^verbatim>\<open>packet\<close> as the JSON value that is serialised.\<close>

definition opt_json :: "string option \<Rightarrow> json" where
  "opt_json v = (case v of None \<Rightarrow> JNull | Some x \<Rightarrow> JStr x)"

definition str_list_json :: "string list \<Rightarrow> json" where
  "str_list_json xs = JArr (map JStr xs)"

definition packet_json :: "packet \<Rightarrow> json" where
  "packet_json p =
     JObj [
       (''incident'', JObj [
          (''id'', JStr (iv_id (pk_incident p))),
          (''title'', JStr (iv_title (pk_incident p))),
          (''severity'', JStr (iv_severity (pk_incident p))),
          (''status'', JStr (iv_status (pk_incident p))),
          (''created_at'', JStr (iv_created_at (pk_incident p))),
          (''updated_at'', JStr (iv_updated_at (pk_incident p))),
          (''description'', JStr (iv_description (pk_incident p)))]),
       (''scope'', JObj [
          (''time_window'', JObj [(''start'', JStr (sc_start (pk_scope p))),
                                  (''end'', JStr (sc_end (pk_scope p)))]),
          (''hosts'', str_list_json (sc_hosts (pk_scope p))),
          (''users'', str_list_json (sc_users (pk_scope p))),
          (''sources'', str_list_json (sc_sources (pk_scope p))),
          (''ips'', str_list_json (sc_ips (pk_scope p)))]),
       (''alerts'', JArr (map (\<lambda>a. JObj [
          (''id'', JStr (av_id a)),
          (''created_at'', JStr (av_created_at a)),
          (''severity'', JStr (av_severity a)),
          (''rule_name'', JStr (av_rule_name a)),
          (''summary'', JStr (av_summary a)),
          (''event_id'', JStr (av_event_id a)),
          (''host'', opt_json (av_host a)),
          (''user'', opt_json (av_user a)),
          (''source'', JStr (av_source a))]) (pk_alerts p))),
       (''timeline'', JArr (map (\<lambda>t. JObj [
          (''time'', JStr (te_time t)),
          (''type'', JStr (te_type t)),
          (''source'', JStr (te_source t)),
          (''host'', opt_json (te_host t)),
          (''user'', opt_json (te_user t)),
          (''summary'', JStr (te_summary t))]) (pk_timeline p))),
       (''actions'', JArr (map (\<lambda>c. JObj [
          (''id'', JStr (cv_id c)),
          (''incident_id'', JStr (cv_incident_id c)),
          (''created_at'', JStr (cv_created_at c)),
          (''actor'', opt_json (cv_actor c)),
          (''action_type'', JStr (cv_action_type c)),
          (''summary'', JStr (cv_summary c)),
          (''details'', cv_details c)]) (pk_actions p)))]"

section \<open>main.py\<close>

text \<open>
  The handlers take the path and body parameters as strings (an id is the text of a
  UUID) and return the \<^verbatim>\<open>status\<close> of the response dict; \<^verbatim>\<open>HTTPException\<close> carries
  the status code and the detail. \<^verbatim>\<open>session.delete(x)\<close> deletes the row of the primary
  key of \<open>x\<close>.
\<close>

definition get_incident :: "store \<Rightarrow> string \<Rightarrow> error + incident" where
  "get_incident s incident_id =
     (case find (\<lambda>i. inc_id i = incident_id) (incidents s) of
        None \<Rightarrow> Inl (HTTPException 404 ''incident not found'')
      | Some inc \<Rightarrow> Inr inc)"

definition session_delete_link :: "store \<Rightarrow> incident_alert \<Rightarrow> store" where
  "session_delete_link s x =
     s\<lparr>incident_alerts :=
         filter (\<lambda>l. \<not> (ia_incident_id l = ia_incident_id x \<and> ia_alert_id l = ia_alert_id x))
           (incident_alerts s)\<rparr>"

definition session_delete_action :: "store \<Rightarrow> incident_action \<Rightarrow> store" where
  "session_delete_action s x =
     s\<lparr>incident_actions := filter (\<lambda>c. act_id c \<noteq> act_id x) (incident_actions s)\<rparr>"

definition session_delete_incident :: "store \<Rightarrow> incident \<Rightarrow> store" where
  "session_delete_incident s inc =
     s\<lparr>incidents := filter (\<lambda>i. inc_id i \<noteq> inc_id inc) (incidents s)\<rparr>"

text \<open>The two \<^verbatim>\<open>for\<close> loops of \<^verbatim>\<open>delete_incident\<close>: the links, then the actions.\<close>

definition delete_incident_children :: "store \<Rightarrow> string \<Rightarrow> store" where
  "delete_incident_children s incident_id =
     (let links = filter (\<lambda>l. ia_incident_id l = incident_id) (incident_alerts s);
          actions = filter (\<lambda>c. act_incident_id c = incident_id) (incident_actions s);
          s1 = foldl session_delete_link s links
      in foldl session_delete_action s1 actions)"

definition delete_incident :: "store \<Rightarrow> string \<Rightarrow> error + (string \<times> store)" where
  "delete_incident s incident_id =
     (case find (\<lambda>i. inc_id i = incident_id) (incidents s) of
        None \<Rightarrow> Inl (HTTPException 404 ''incident not found'')
      | Some inc \<Rightarrow>
          Inr (''deleted'', session_delete_incident (delete_incident_children s incident_id) inc))"

definition get_incident_packet :: "store \<Rightarrow> string \<Rightarrow> error + packet" where
  "get_incident_packet s incident_id =
     (case build_incident_packet s incident_id of
        Inl (ValueError msg) \<Rightarrow> Inl (HTTPException 404 ''incident not found'')
      | Inl e \<Rightarrow> Inl e
      | Inr p \<Rightarrow> Inr p)"


section \<open>Notions of the specification\<close>

text \<open>
  The Field Accessor as the specification words it: at each segment, descend when the
  node is a keyed mapping that has the segment as a key; otherwise the result is
  absent (\<open>None\<close>). A null leaf is a value like any other here.
\<close>

fun resolve :: "json \<Rightarrow> string list \<Rightarrow> json option" where
  "resolve node [] = Some node"
| "resolve node (seg # segs) =
     (case node of
        JObj kvs \<Rightarrow> (case map_of kvs seg of None \<Rightarrow> None | Some v \<Rightarrow> resolve v segs)
      | _ \<Rightarrow> None)"

definition path_segments :: "rule \<Rightarrow> string list" where
  "path_segments r = split_on CHR ''.'' (r_match_field r)"

text \<open>
  The Rule Matcher as the specification words it: the source is the wildcard or the
  event's source, the field resolves to a present value, and the lower-cased needle
  occurs in the lower-cased comparison string.
\<close>

definition spec_matches :: "rule \<Rightarrow> event \<Rightarrow> bool" where
  "spec_matches r ev \<longleftrightarrow>
     (r_match_source r = ''*'' \<or> r_match_source r = ev_source ev) \<and>
     (case resolve (ev_raw ev) (path_segments r) of
        None \<Rightarrow> False
      | Some v \<Rightarrow> str_in (lower (r_match_contains r)) (lower (haystack_of v)))"

text \<open>The dedup key of an alert, and the invariant on the Alert table.\<close>

definition pair_of :: "alert \<Rightarrow> string \<times> string" where
  "pair_of a = (a_rule_id a, a_event_id a)"

definition alert_for :: "event \<Rightarrow> rule \<Rightarrow> alert \<Rightarrow> bool" where
  "alert_for ev r a \<longleftrightarrow> a_event_id a = ev_id ev \<and> a_rule_id a = r_id r"

definition alert_pairs_unique :: "store \<Rightarrow> bool" where
  "alert_pairs_unique s \<longleftrightarrow> distinct (map pair_of (alerts s))"

text \<open>
  Two relations for the proof of idempotence: a matching pair has its alert, and a
  store that differs from another by alerts added at the end, keeping the invariant.
\<close>

definition covered :: "store \<Rightarrow> event \<Rightarrow> rule \<Rightarrow> bool" where
  "covered s ev r \<longleftrightarrow>
     (rule_matches r ev = Inr True \<longrightarrow> (\<exists>a \<in> set (alerts s). alert_for ev r a))"

definition grows :: "store \<Rightarrow> store \<Rightarrow> bool" where
  "grows s s' \<longleftrightarrow>
     rules s' = rules s \<and> events s' = events s \<and> (\<exists>new. alerts s' = alerts s @ new) \<and>
     (alert_pairs_unique s \<longrightarrow> alert_pairs_unique s')"

text \<open>Rows by key.\<close>

definition incident_exists :: "store \<Rightarrow> string \<Rightarrow> bool" where
  "incident_exists s incident_id \<longleftrightarrow> incident_id \<in> inc_id ` set (incidents s)"


definition evidence_rows :: "store \<Rightarrow> string \<Rightarrow> string \<Rightarrow> evidence_file list" where
  "evidence_rows s incident_id sha =
     filter (\<lambda>e. ef_incident_id e = incident_id \<and> ef_filename e = packet_filename incident_id
                 \<and> ef_sha256 e = sha) (evidence_files s)"

definition links_of :: "store \<Rightarrow> string \<Rightarrow> incident_alert list" where
  "links_of s incident_id = filter (\<lambda>l. ia_incident_id l = incident_id) (incident_alerts s)"

definition actions_of :: "store \<Rightarrow> string \<Rightarrow> incident_action list" where
  "actions_of s incident_id = filter (\<lambda>c. act_incident_id c = incident_id) (incident_actions s)"

definition evidence_of :: "store \<Rightarrow> string \<Rightarrow> evidence_file list" where
  "evidence_of s incident_id = filter (\<lambda>e. ef_incident_id e = incident_id) (evidence_files s)"


text \<open>Some row of another table carries the id of the incident.\<close>

definition references_incident :: "store \<Rightarrow> string \<Rightarrow> bool" where
  "references_incident s incident_id \<longleftrightarrow>
     0 < length (links_of s incident_id) + length (actions_of s incident_id)
           + length (evidence_of s incident_id)"




text \<open>
  The timeline in insertion order, before the sort: per alert its entry, then the entry
  of its event when the event is found and its payload is a dict.
\<close>

definition summary_text :: "json \<Rightarrow> string" where
  "summary_text raw = (case event_summary raw of Inl e \<Rightarrow> [] | Inr t \<Rightarrow> t)"

definition companion_entries :: "(string \<times> event) list \<Rightarrow> alert \<Rightarrow> timeline_entry list" where
  "companion_entries d a =
     (case map_of d (a_event_id a) of
        None \<Rightarrow> []
      | Some ev \<Rightarrow>
          if isinstance_dict (ev_raw ev) then [event_entry ev (summary_text (ev_raw ev))] else [])"

definition insertion_order :: "store \<Rightarrow> string \<Rightarrow> timeline_entry list" where
  "insertion_order s incident_id =
     (let als = linked_alerts s incident_id in
      concat (map (\<lambda>a. alert_entry a # companion_entries (events_by_id_of s als) a) als))"

definition same_time_group :: "string \<Rightarrow> timeline_entry list \<Rightarrow> timeline_entry list" where
  "same_time_group k entries = filter (\<lambda>t. te_time t = k) entries"

section \<open>Example data\<close>

definition epoch :: datetime where
  "epoch = \<lparr> dt_year = 2024, dt_month = 1, dt_day = 1, dt_hour = 0, dt_minute = 0,
             dt_second = 0, dt_microsecond = 0 \<rparr>"

definition ex_rule :: "string \<Rightarrow> string \<Rightarrow> string \<Rightarrow> rule" where
  "ex_rule src field needle =
     \<lparr> r_id = ''r1'', r_created_at = epoch, r_name = ''root login'', r_severity = ''high'',
       r_mitre = [], r_description = [], r_match_source = src, r_match_field = field,
       r_match_contains = needle \<rparr>"

definition ex_event :: "string \<Rightarrow> string \<Rightarrow> json \<Rightarrow> event" where
  "ex_event eid src raw =
     \<lparr> ev_id = eid, ev_received_at = epoch, ev_source = src, ev_host = Some ''web-1'',
       ev_user = None, ev_raw = raw \<rparr>"

definition root_payload :: json where
  "root_payload =
     JObj [(''userIdentity'', JObj [(''userName'', JStr ''rootuser'')]),
           (''src_ip'', JStr ''10.0.0.1''),
           (''ip'', JArr [JStr '' 10.0.0.1'', JStr ''10.0.0.2''])]"

definition alice_payload :: json where
  "alice_payload = JObj [(''userIdentity'', JObj [(''userName'', JStr ''alice'')])]"

definition ex_incident :: incident where
  "ex_incident =
     \<lparr> inc_id = ''inc-1'', inc_created_at = epoch, inc_updated_at = epoch, inc_title = ''Root use'',
       inc_severity = ''high'', inc_status = ''open'', inc_description = [] \<rparr>"

definition ex_store :: store where
  "ex_store =
     \<lparr> rules = [ex_rule ''*'' ''userIdentity.userName'' ''root''],
       events = [ex_event ''e1'' ''aws-cloudtrail'' root_payload,
                 ex_event ''e2'' ''aws-cloudtrail'' alice_payload],
       alerts = [], incidents = [ex_incident], incident_alerts = [], incident_actions = [],
       evidence_files = [], files = [], clock = epoch, uuid_ctr = 0 \<rparr>"

definition ex_alert :: alert where
  "ex_alert =
     \<lparr> a_id = ''a1'', a_created_at = epoch, a_rule_id = ''r1'', a_rule_name = ''root login'',
       a_severity = ''high'', a_event_id = ''e1'', a_source = ''aws-cloudtrail'',
       a_host = Some ''web-1'', a_user = None, a_summary = ''root login'' \<rparr>"

definition ex_action :: incident_action where
  "ex_action =
     \<lparr> act_id = ''act-1'', act_incident_id = ''inc-1'', act_created_at = epoch,
       act_actor = None, act_action_type = ''note'', act_summary = ''triage'', act_details = JNull \<rparr>"

definition ex_evidence :: evidence_file where
  "ex_evidence =
     \<lparr> ef_id = ''ef-1'', ef_incident_id = ''inc-1'', ef_created_at = epoch,
       ef_filename = ''inc-1/incident-packet.json'', ef_content_type = ''application/json'',
       ef_sha256 = ''00'', ef_size_bytes = 2 \<rparr>"

definition ex_linked :: store where
  "ex_linked =
     ex_store\<lparr> alerts := [ex_alert],
               incident_alerts := [\<lparr> ia_incident_id = ''inc-1'', ia_alert_id = ''a1'',
                                     ia_added_at = epoch \<rparr>],
               incident_actions := [ex_action],
               evidence_files := [ex_evidence] \<rparr>"

definition ex_linked_deleted :: store where
  "ex_linked_deleted =
     ex_linked\<lparr> incidents := [], incident_alerts := [], incident_actions := [] \<rparr>"

section \<open>Field access and matching\<close>

lemma get_by_path_loop_resolve:
  "get_by_path_loop cur parts = Inr (case resolve cur parts of None \<Rightarrow> JNull | Some v \<Rightarrow> v)"
proof (induction parts arbitrary: cur)
  case Nil
  show ?case by simp
next
  case (Cons part parts)
  show ?case
  proof (cases cur)
    case (JObj kvs)
    then show ?thesis using Cons.IH by (cases "map_of kvs part") auto
  qed simp_all
qed

lemma starts_with_iff: "starts_with needle hay \<longleftrightarrow> (\<exists>ss. hay = needle @ ss)"
  by (induction needle hay rule: starts_with.induct) auto

lemma str_in_iff: "str_in needle hay \<longleftrightarrow> (\<exists>ps ss. hay = ps @ needle @ ss)"
proof (induction hay)
  case Nil
  show ?case by auto
next
  case (Cons h hs)
  show ?case
  proof
    assume "str_in needle (h # hs)"
    then consider "starts_with needle (h # hs)" | "str_in needle hs" by auto
    then show "\<exists>ps ss. h # hs = ps @ needle @ ss"
    proof cases
      case 1
      then obtain ss where "h # hs = needle @ ss" by (auto simp: starts_with_iff)
      then have "h # hs = [] @ needle @ ss" by simp
      then show ?thesis by blast
    next
      case 2
      then obtain ps ss where "hs = ps @ needle @ ss" using Cons.IH by auto
      then have "h # hs = (h # ps) @ needle @ ss" by simp
      then show ?thesis by blast
    qed
  next
    assume "\<exists>ps ss. h # hs = ps @ needle @ ss"
    then obtain ps ss where eq: "h # hs = ps @ needle @ ss" by blast
    show "str_in needle (h # hs)"
    proof (cases ps)
      case Nil
      then have "starts_with needle (h # hs)" using eq by (auto simp: starts_with_iff)
      then show ?thesis by simp
    next
      case (Cons p ps')
      then have "hs = ps' @ needle @ ss" using eq by simp
      then have "str_in needle hs" using Cons.IH by blast
      then show ?thesis by simp
    qed
  qed
qed

lemma rule_matches_total: "rule_matches r ev = Inr (rule_matches r ev = Inr True)"
  by (simp add: rule_matches_def get_by_path_def get_by_path_loop_resolve)

text \<open>
  Claim C3. Rule evaluation is total and raises nothing, whatever the payload:
  \<^verbatim>\<open>_get_by_path\<close> and the matcher always return a value. On a dict the loop descends
  into the value of the segment when the key is there and returns \<^verbatim>\<open>None\<close> when it is
  not; on a node that is not a dict every segment gives \<^verbatim>\<open>None\<close>. When the path
  resolves to nothing the matcher returns false.
\<close>

theorem rule_evaluation_never_raises:
  "(\<exists>v. get_by_path (ev_raw ev) (r_match_field r) = Inr v) \<and>
   (\<exists>b. rule_matches r ev = Inr b) \<and>
   get_by_path_loop (JObj kvs) (part # parts) =
     (case map_of kvs part of None \<Rightarrow> Inr JNull | Some v \<Rightarrow> get_by_path_loop v parts) \<and>
   (\<not> isinstance_dict node \<longrightarrow> get_by_path_loop node (part # parts) = Inr JNull) \<and>
   (resolve (ev_raw ev) (path_segments r) = None \<longrightarrow> rule_matches r ev = Inr False)"
proof -
  have 1: "\<exists>v. get_by_path (ev_raw ev) (r_match_field r) = Inr v"
    by (simp add: get_by_path_def get_by_path_loop_resolve)
  have 2: "\<exists>b. rule_matches r ev = Inr b"
    using rule_matches_total [of r ev] by blast
  have 3: "get_by_path_loop (JObj kvs) (part # parts) =
     (case map_of kvs part of None \<Rightarrow> Inr JNull | Some v \<Rightarrow> get_by_path_loop v parts)"
    by (cases "map_of kvs part") auto
  have 4: "\<not> isinstance_dict node \<longrightarrow> get_by_path_loop node (part # parts) = Inr JNull"
    by simp
  have 5: "resolve (ev_raw ev) (path_segments r) = None \<longrightarrow> rule_matches r ev = Inr False"
    by (simp add: rule_matches_def get_by_path_def get_by_path_loop_resolve path_segments_def)
  from 1 2 3 4 5 show ?thesis by blast
qed

theorem rule_evaluation_never_raises_witness:
  "resolve (ev_raw (ex_event ''e3'' ''aws'' (JArr [JStr ''userIdentity''])))
     (path_segments (ex_rule ''*'' ''userIdentity.userName'' ''root'')) = None \<and>
   rule_matches (ex_rule ''*'' ''userIdentity.userName'' ''root'')
     (ex_event ''e3'' ''aws'' (JArr [JStr ''userIdentity''])) = Inr False \<and>
   get_by_path_loop (JInt 7) [''a'', ''b''] = Inr JNull"
proof -
  let ?ev = "ex_event ''e3'' ''aws'' (JArr [JStr ''userIdentity''])"
  let ?r = "ex_rule ''*'' ''userIdentity.userName'' ''root''"
  have absent: "resolve (ev_raw ?ev) (path_segments ?r) = None"
    by code_simp
  have nondict: "\<not> isinstance_dict (JInt 7)" by simp
  from rule_evaluation_never_raises [of ?ev ?r "[]" "''a''" "[''b'']" "JInt 7"] absent nondict
  show ?thesis by blast
qed

text \<open>
  Claim C10. A field that resolves to JSON null is treated as an absent one:
  \<^verbatim>\<open>_get_by_path\<close> returns \<^verbatim>\<open>None\<close> in both cases and in no other. For a null leaf the
  matcher returns false, whatever \<^verbatim>\<open>match_contains\<close> is, and the loop body leaves the
  counter and the store as they are: no alert is created.
\<close>

theorem null_leaf_is_no_match:
  "(get_by_path (ev_raw ev) (r_match_field r) = Inr JNull \<longleftrightarrow>
      resolve (ev_raw ev) (path_segments r) = None \<or>
      resolve (ev_raw ev) (path_segments r) = Some JNull) \<and>
   (resolve (ev_raw ev) (path_segments r) = Some JNull \<longrightarrow>
      rule_matches r ev = Inr False \<and> detect_pair ev r (created, s) = Inr (created, s))"
  by (auto simp: get_by_path_def get_by_path_loop_resolve path_segments_def rule_matches_def
      detect_pair_def split: option.splits)

theorem null_leaf_is_no_match_witness:
  "resolve (JObj [(''status'', JNull)]) (path_segments (ex_rule ''*'' ''status'' ''null'')) = Some JNull \<and>
   str_in (lower ''null'') (lower (json_dumps JNull)) \<and>
   rule_matches (ex_rule ''*'' ''status'' ''null'')
     (ex_event ''e3'' ''aws'' (JObj [(''status'', JNull)])) = Inr False \<and>
   detect_pair (ex_event ''e3'' ''aws'' (JObj [(''status'', JNull)])) (ex_rule ''*'' ''status'' ''null'')
     (0, ex_store) = Inr (0, ex_store)"
proof -
  let ?ev = "ex_event ''e3'' ''aws'' (JObj [(''status'', JNull)])"
  let ?r = "ex_rule ''*'' ''status'' ''null''"
  have leaf: "resolve (ev_raw ?ev) (path_segments ?r) = Some JNull"
    by code_simp
  have raw: "ev_raw ?ev = JObj [(''status'', JNull)]"
    by (simp add: ex_event_def)
  have sub: "str_in (lower ''null'') (lower (json_dumps JNull))"
    by code_simp
  from null_leaf_is_no_match [of ?ev ?r 0 ex_store] leaf raw sub show ?thesis
    by simp
qed

text \<open>
  Claim C2, as stated, fails: a rule whose \<^verbatim>\<open>match_source\<close> is the empty string passes
  the source test for every event (the test starts with \<^verbatim>\<open>r.match_source and\<close>), so it
  matches an event of another source.
\<close>

theorem matcher_claim_counterexample:
  "rule_matches (ex_rule [] ''user'' ''root'') (ex_event ''e3'' ''aws'' (JObj [(''user'', JStr ''Root'')]))
     = Inr True \<and>
   \<not> spec_matches (ex_rule [] ''user'' ''root'') (ex_event ''e3'' ''aws'' (JObj [(''user'', JStr ''Root'')]))"
  by code_simp

text \<open>
  Claim C2, amended. The matcher returns true iff (1) \<^verbatim>\<open>match_source\<close> is empty, is
  \<^verbatim>\<open>"*"\<close> or equals the event's source, (2) \<^verbatim>\<open>match_field\<close> resolves to a present value
  that is not null, and (3) the lower-cased \<^verbatim>\<open>match_contains\<close> occurs in the lower-cased
  comparison string; it returns false otherwise. The comparison string is the value
  itself for a string and its JSON serialisation for any other value, and an empty
  \<^verbatim>\<open>match_contains\<close> passes the substring test for every value.
\<close>

theorem matcher_characterisation:
  "rule_matches r ev =
     Inr ((r_match_source r = [] \<or> r_match_source r = ''*'' \<or> r_match_source r = ev_source ev) \<and>
          (\<exists>v. resolve (ev_raw ev) (path_segments r) = Some v \<and> v \<noteq> JNull \<and>
               (\<exists>ps ss. lower (haystack_of v) = ps @ lower (r_match_contains r) @ ss))) \<and>
   haystack_of (JStr t) = t \<and>
   (\<not> isinstance_str w \<longrightarrow> haystack_of w = json_dumps w) \<and>
   (r_match_contains r = [] \<longrightarrow> str_in (lower (r_match_contains r)) (lower (haystack_of w)))"
proof -
  have 1: "rule_matches r ev =
     Inr ((r_match_source r = [] \<or> r_match_source r = ''*'' \<or> r_match_source r = ev_source ev) \<and>
          (\<exists>v. resolve (ev_raw ev) (path_segments r) = Some v \<and> v \<noteq> JNull \<and>
               (\<exists>ps ss. lower (haystack_of v) = ps @ lower (r_match_contains r) @ ss)))"
    by (auto simp: rule_matches_def get_by_path_def get_by_path_loop_resolve path_segments_def
        str_in_iff split: option.splits)
  have 2: "haystack_of (JStr t) = t" by (simp add: haystack_of_def)
  have 3: "\<not> isinstance_str w \<longrightarrow> haystack_of w = json_dumps w"
    by (cases w) (simp_all add: haystack_of_def)
  have 4: "r_match_contains r = [] \<longrightarrow> str_in (lower (r_match_contains r)) (lower (haystack_of w))"
    by (cases "lower (haystack_of w)") (simp_all add: lower_def)
  from 1 2 3 4 show ?thesis by blast
qed

theorem matcher_characterisation_witness:
  "rule_matches (ex_rule ''*'' ''userIdentity.userName'' ''root'')
     (ex_event ''e1'' ''aws-cloudtrail'' root_payload) = Inr True \<and>
   rule_matches (ex_rule ''*'' ''userIdentity.userName'' ''root'')
     (ex_event ''e2'' ''aws-cloudtrail'' alice_payload) = Inr False \<and>
   haystack_of (JInt 5) = json_dumps (JInt 5) \<and>
   str_in (lower (r_match_contains (ex_rule ''*'' ''n'' []))) (lower (haystack_of (JInt 5)))"
proof -
  let ?r = "ex_rule ''*'' ''userIdentity.userName'' ''root''"
  let ?e1 = "ex_event ''e1'' ''aws-cloudtrail'' root_payload"
  have src: "r_match_source ?r = ''*''" by code_simp
  have res: "resolve (ev_raw ?e1) (path_segments ?r) = Some (JStr ''rootuser'')" by code_simp
  have occ: "lower (haystack_of (JStr ''rootuser'')) = [] @ lower (r_match_contains ?r) @ ''user''"
    by code_simp
  have "\<exists>v. resolve (ev_raw ?e1) (path_segments ?r) = Some v \<and> v \<noteq> JNull \<and>
          (\<exists>ps ss. lower (haystack_of v) = ps @ lower (r_match_contains ?r) @ ss)"
    using res occ by blast
  then have yes: "rule_matches ?r ?e1 = Inr True"
    using src matcher_characterisation [of ?r ?e1] by simp
  have no: "rule_matches ?r (ex_event ''e2'' ''aws-cloudtrail'' alice_payload) = Inr False"
    by code_simp
  have nonstr: "\<not> isinstance_str (JInt 5)" by simp
  have empty: "r_match_contains (ex_rule ''*'' ''n'' []) = []" by (simp add: ex_rule_def)
  from matcher_characterisation [of "ex_rule ''*'' ''n'' []" ?e1 "[]" "JInt 5"] nonstr empty
  have "haystack_of (JInt 5) = json_dumps (JInt 5)"
    "str_in (lower (r_match_contains (ex_rule ''*'' ''n'' []))) (lower (haystack_of (JInt 5)))"
    by blast+
  then show ?thesis using yes no by blast
qed

section \<open>Detection runs\<close>

lemma grows_refl: "grows s s"
  by (simp add: grows_def)

lemma grows_trans: "grows s t \<Longrightarrow> grows t u \<Longrightarrow> grows s u"
  by (auto simp: grows_def)

lemma covered_grows: "covered s ev r \<Longrightarrow> grows s s' \<Longrightarrow> covered s' ev r"
  by (auto simp: covered_def grows_def)

lemma find_alert_None:
  "find (\<lambda>a. a_event_id a = ev_id ev \<and> a_rule_id a = r_id r) as = None
     \<longleftrightarrow> (\<forall>a \<in> set as. \<not> alert_for ev r a)"
  by (auto simp: find_None_iff alert_for_def)

lemma new_alert_props:
  "rules (new_alert r ev s) = rules s \<and> events (new_alert r ev s) = events s \<and>
   (\<exists>a. alerts (new_alert r ev s) = alerts s @ [a] \<and> alert_for ev r a)"
  by (simp add: new_alert_def uuid4_def alert_for_def Let_def)

lemma detect_pair_step:
  "\<exists>c' s'. detect_pair ev r (c, s) = Inr (c', s') \<and> grows s s' \<and> covered s' ev r"
proof (cases "rule_matches r ev = Inr True")
  case False
  then have "rule_matches r ev = Inr False" using rule_matches_total [of r ev] by simp
  then show ?thesis by (simp add: detect_pair_def grows_refl covered_def)
next
  case True
  show ?thesis
  proof (cases "find (\<lambda>a. a_event_id a = ev_id ev \<and> a_rule_id a = r_id r) (alerts s)")
    case (Some a)
    then have "a \<in> set (alerts s)" "alert_for ev r a"
      by (auto simp: find_Some_iff alert_for_def in_set_conv_nth)
    then show ?thesis using True Some by (auto simp: detect_pair_def grows_refl covered_def)
  next
    case None
    then have fresh: "\<forall>a \<in> set (alerts s). \<not> alert_for ev r a" by (simp add: find_alert_None)
    obtain a where a: "alerts (new_alert r ev s) = alerts s @ [a]" "alert_for ev r a"
      using new_alert_props by blast
    have "pair_of a \<notin> pair_of ` set (alerts s)"
      using fresh a(2) by (auto simp: alert_for_def pair_of_def)
    then have "grows s (new_alert r ev s)"
      using a(1) new_alert_props [of r ev s] by (auto simp: grows_def alert_pairs_unique_def)
    moreover have "covered (new_alert r ev s) ev r"
      using a by (auto simp: covered_def)
    ultimately show ?thesis using True None by (simp add: detect_pair_def)
  qed
qed

lemma detect_pair_fixed:
  "covered s ev r \<Longrightarrow> detect_pair ev r (c, s) = Inr (c, s)"
proof (cases "rule_matches r ev = Inr True")
  case False
  then have "rule_matches r ev = Inr False" using rule_matches_total [of r ev] by simp
  then show ?thesis by (simp add: detect_pair_def)
next
  case True
  assume "covered s ev r"
  then obtain a where "a \<in> set (alerts s)" "alert_for ev r a" using True by (auto simp: covered_def)
  then have "find (\<lambda>a. a_event_id a = ev_id ev \<and> a_rule_id a = r_id r) (alerts s) \<noteq> None"
    by (auto simp: find_alert_None)
  then show ?thesis using True by (auto simp: detect_pair_def)
qed

lemma inner_loop_step:
  "\<exists>c' s'. for_each (\<lambda>r. detect_pair ev r) rs (c, s) = Inr (c', s') \<and> grows s s' \<and>
     (\<forall>r \<in> set rs. covered s' ev r)"
proof (induction rs arbitrary: c s)
  case Nil
  show ?case by (simp add: grows_refl)
next
  case (Cons r rs)
  obtain c1 s1 where 1: "detect_pair ev r (c, s) = Inr (c1, s1)" "grows s s1" "covered s1 ev r"
    using detect_pair_step by blast
  obtain c2 s2 where 2: "for_each (\<lambda>r. detect_pair ev r) rs (c1, s1) = Inr (c2, s2)"
      "grows s1 s2" "\<forall>r \<in> set rs. covered s2 ev r"
    using Cons.IH by blast
  have "for_each (\<lambda>r. detect_pair ev r) (r # rs) (c, s) = Inr (c2, s2)" using 1 2 by simp
  moreover have "grows s s2" using 1 2 grows_trans by blast
  moreover have "covered s2 ev r" using 1 2 covered_grows by blast
  ultimately show ?case using 2 by auto
qed

lemma inner_loop_fixed:
  "\<forall>r \<in> set rs. covered s ev r \<Longrightarrow> for_each (\<lambda>r. detect_pair ev r) rs (c, s) = Inr (c, s)"
  by (induction rs) (simp_all add: detect_pair_fixed)

lemma outer_loop_step:
  "\<exists>c' s'. for_each (\<lambda>ev. for_each (\<lambda>r. detect_pair ev r) rs) evs (c, s) = Inr (c', s') \<and>
     grows s s' \<and> (\<forall>ev \<in> set evs. \<forall>r \<in> set rs. covered s' ev r)"
proof (induction evs arbitrary: c s)
  case Nil
  show ?case by (simp add: grows_refl)
next
  case (Cons ev evs)
  obtain c1 s1 where 1: "for_each (\<lambda>r. detect_pair ev r) rs (c, s) = Inr (c1, s1)" "grows s s1"
      "\<forall>r \<in> set rs. covered s1 ev r"
    using inner_loop_step by blast
  obtain c2 s2 where 2:
      "for_each (\<lambda>ev. for_each (\<lambda>r. detect_pair ev r) rs) evs (c1, s1) = Inr (c2, s2)"
      "grows s1 s2" "\<forall>ev \<in> set evs. \<forall>r \<in> set rs. covered s2 ev r"
    using Cons.IH by blast
  have "for_each (\<lambda>ev. for_each (\<lambda>r. detect_pair ev r) rs) (ev # evs) (c, s) = Inr (c2, s2)"
    using 1 2 by simp
  moreover have "grows s s2" using 1 2 grows_trans by blast
  moreover have "\<forall>r \<in> set rs. covered s2 ev r" using 1 2 covered_grows by blast
  ultimately show ?case using 2 by auto
qed

lemma outer_loop_fixed:
  "\<forall>ev \<in> set evs. \<forall>r \<in> set rs. covered s ev r \<Longrightarrow>
   for_each (\<lambda>ev. for_each (\<lambda>r. detect_pair ev r) rs) evs (c, s) = Inr (c, s)"
  by (induction evs) (simp_all add: inner_loop_fixed)

text \<open>
  Claim C1. From every store and for every limit, \<^verbatim>\<open>run_detections\<close> returns; a store
  with at most one alert per (rule_id, event_id) pair is taken to a store with at most
  one alert per pair (the empty Alert table is such a store, and alerts are created
  nowhere else); and a second run over the store the first run left creates no alert:
  it returns the count zero and the same store.
\<close>

theorem run_detections_idempotent:
  "\<exists>n s1. run_detections s limit = Inr (n, s1) \<and>
     (alert_pairs_unique s \<longrightarrow> alert_pairs_unique s1) \<and>
     run_detections s1 limit = Inr (0, s1)"
proof (cases "order_desc r_created_at (rules s) = []")
  case True
  then show ?thesis by (simp add: run_detections_def)
next
  case False
  let ?rs = "order_desc r_created_at (rules s)"
  let ?evs = "take limit (order_desc ev_received_at (events s))"
  obtain n s1 where 1:
      "for_each (\<lambda>ev. for_each (\<lambda>r. detect_pair ev r) ?rs) ?evs (0, s) = Inr (n, s1)"
      "grows s s1" "\<forall>ev \<in> set ?evs. \<forall>r \<in> set ?rs. covered s1 ev r"
    using outer_loop_step by blast
  have same: "rules s1 = rules s" "events s1 = events s" using 1(2) by (auto simp: grows_def)
  have "run_detections s limit = Inr (n, s1)" using False 1(1) by (simp add: run_detections_def)
  moreover have "alert_pairs_unique s \<longrightarrow> alert_pairs_unique s1" using 1(2) by (simp add: grows_def)
  moreover have "run_detections s1 limit = Inr (0, s1)"
    using False same outer_loop_fixed [OF 1(3), of 0] by (simp add: run_detections_def)
  ultimately show ?thesis by blast
qed

theorem run_detections_idempotent_witness:
  "alert_pairs_unique ex_store \<and>
   (case run_detections ex_store 500 of
      Inl e \<Rightarrow> None
    | Inr r \<Rightarrow> Some (fst r, map pair_of (alerts (snd r)))) = Some (1, [(''r1'', ''e1'')]) \<and>
   (\<exists>n s1. run_detections ex_store 500 = Inr (n, s1) \<and> alert_pairs_unique s1 \<and>
      run_detections s1 500 = Inr (0, s1))"
proof -
  have u: "alert_pairs_unique ex_store" by code_simp
  have run: "(case run_detections ex_store 500 of
      Inl e \<Rightarrow> None
    | Inr r \<Rightarrow> Some (fst r, map pair_of (alerts (snd r)))) = Some (1, [(''r1'', ''e1'')])"
    by code_simp
  from run_detections_idempotent [of ex_store 500] u run show ?thesis by blast
qed

section \<open>Building the packet\<close>

lemma find_incident_None:
  "find (\<lambda>i. inc_id i = incident_id) (incidents s) = None \<longleftrightarrow> \<not> incident_exists s incident_id"
  by (auto simp: find_None_iff incident_exists_def)

lemma find_None_filter: "find P xs = None \<longleftrightarrow> filter P xs = []"
  by (induction xs) auto

lemma for_each_total:
  assumes "\<And>x st. \<exists>st'. body x st = Inr st'"
  shows "\<exists>st'. for_each body xs st = Inr st'"
proof (induction xs arbitrary: st)
  case Nil
  show ?case by simp
next
  case (Cons x xs)
  obtain st1 where "body x st = Inr st1" using assms by blast
  then show ?case using Cons.IH [of st1] by simp
qed

lemma extract_ips_loop_dict: "\<exists>found. extract_ips_loop (JObj kvs) ks ips = Inr found"
  by (induction ks arbitrary: ips) (auto split: option.splits)

lemma extract_ips_dict: "isinstance_dict raw \<Longrightarrow> \<exists>found. extract_ips raw = Inr found"
proof (cases raw)
  case (JObj kvs)
  obtain found where "extract_ips_loop (JObj kvs) ip_keys [] = Inr found"
    using extract_ips_loop_dict by blast
  then show ?thesis using JObj by (simp add: extract_ips_def)
qed simp_all

lemma event_summary_loop_dict: "\<exists>t. event_summary_loop (JObj kvs) ks = Inr t"
  by (induction ks) (auto split: option.splits json.splits)

lemma event_summary_dict: "isinstance_dict raw \<Longrightarrow> \<exists>t. event_summary raw = Inr t"
  by (cases raw) (simp_all add: event_summary_def event_summary_loop_dict)

lemma scope_step_total: "\<exists>acc'. scope_step d a acc = Inr acc'"
proof (cases "map_of d (a_event_id a)")
  case None
  then show ?thesis by (simp add: scope_step_def Let_def)
next
  case (Some ev)
  show ?thesis
  proof (cases "isinstance_dict (ev_raw ev)")
    case True
    then obtain found where "extract_ips (ev_raw ev) = Inr found" using extract_ips_dict by blast
    then show ?thesis using Some True by (simp add: scope_step_def Let_def)
  next
    case False
    then show ?thesis using Some by (simp add: scope_step_def Let_def)
  qed
qed

lemma timeline_step_eq:
  "timeline_step d a entries = Inr (entries @ alert_entry a # companion_entries d a)"
proof (cases "map_of d (a_event_id a)")
  case None
  then show ?thesis by (simp add: timeline_step_def companion_entries_def)
next
  case (Some ev)
  show ?thesis
  proof (cases "isinstance_dict (ev_raw ev)")
    case True
    then obtain t where "event_summary (ev_raw ev) = Inr t" using event_summary_dict by blast
    then show ?thesis using Some True
      by (simp add: timeline_step_def companion_entries_def summary_text_def)
  next
    case False
    then show ?thesis using Some by (simp add: timeline_step_def companion_entries_def)
  qed
qed

lemma timeline_loop_eq:
  "for_each (timeline_step d) als entries =
     Inr (entries @ concat (map (\<lambda>a. alert_entry a # companion_entries d a) als))"
  by (induction als arbitrary: entries) (simp_all add: timeline_step_eq)

lemma time_window_total: "\<exists>w. time_window inc tms = Inr w"
  by (cases tms) (simp_all add: time_window_def)

lemma build_incident_packet_found:
  assumes "find (\<lambda>i. inc_id i = incident_id) (incidents s) = Some inc"
  shows "\<exists>p. build_incident_packet s incident_id = Inr p"
proof -
  let ?als = "linked_alerts s incident_id"
  let ?d = "events_by_id_of s ?als"
  obtain acc where acc: "for_each (scope_step ?d) ?als
      \<lparr> sl_times = [], sl_hosts = [], sl_users = [], sl_sources = [], sl_ips = [] \<rparr> = Inr acc"
    using for_each_total [of "scope_step ?d"] scope_step_total by blast
  obtain start stop where w: "time_window inc (sl_times acc) = Inr (start, stop)"
    using time_window_total [of inc "sl_times acc"] by (cases "time_window inc (sl_times acc)") auto
  show ?thesis using assms acc w by (simp add: build_incident_packet_def Let_def timeline_loop_eq)
qed

text \<open>
  Claim C7. \<^verbatim>\<open>build_incident_packet\<close> raises \<^verbatim>\<open>ValueError("incident not found")\<close> exactly
  when no incident has the id; for an id that resolves it returns a packet, and so does
  the handler \<^verbatim>\<open>get_incident_packet\<close>; for an id that does not resolve the handler
  answers 404.
\<close>

theorem packet_not_found_iff:
  "(build_incident_packet s incident_id = Inl (ValueError ''incident not found'')
      \<longleftrightarrow> \<not> incident_exists s incident_id) \<and>
   (incident_exists s incident_id \<longrightarrow>
      (\<exists>p. build_incident_packet s incident_id = Inr p \<and> get_incident_packet s incident_id = Inr p)) \<and>
   (\<not> incident_exists s incident_id \<longrightarrow>
      get_incident_packet s incident_id = Inl (HTTPException 404 ''incident not found''))"
proof (cases "find (\<lambda>i. inc_id i = incident_id) (incidents s)")
  case None
  then have "\<not> incident_exists s incident_id" by (simp add: find_incident_None)
  moreover have "build_incident_packet s incident_id = Inl (ValueError ''incident not found'')"
    using None by (simp add: build_incident_packet_def)
  ultimately show ?thesis by (simp add: get_incident_packet_def)
next
  case (Some inc)
  then have ex: "incident_exists s incident_id" using find_incident_None [of incident_id s] by auto
  obtain p where "build_incident_packet s incident_id = Inr p"
    using build_incident_packet_found [OF Some] by blast
  then show ?thesis using ex by (simp add: get_incident_packet_def)
qed

theorem packet_not_found_iff_witness:
  "incident_exists ex_linked ''inc-1'' \<and>
   (\<exists>p. build_incident_packet ex_linked ''inc-1'' = Inr p \<and>
        get_incident_packet ex_linked ''inc-1'' = Inr p) \<and>
   \<not> incident_exists ex_linked ''inc-2'' \<and>
   build_incident_packet ex_linked ''inc-2'' = Inl (ValueError ''incident not found'') \<and>
   get_incident_packet ex_linked ''inc-2'' = Inl (HTTPException 404 ''incident not found'')"
proof -
  have yes: "incident_exists ex_linked ''inc-1''" by code_simp
  have no: "\<not> incident_exists ex_linked ''inc-2''" by code_simp
  from packet_not_found_iff [of ex_linked "''inc-1''"] packet_not_found_iff [of ex_linked "''inc-2''"]
    yes no
  show ?thesis by blast
qed

subsection \<open>Scope lists\<close>















subsection \<open>Timeline\<close>

lemma of_char_digit_char: "d < 10 \<Longrightarrow> (of_char (digit_char d) :: nat) = 48 + d"
  by (simp add: digit_char_def)

lemma digit_char_less: "a < 10 \<Longrightarrow> b < 10 \<Longrightarrow> digit_char a < digit_char b \<longleftrightarrow> a < b"
  by (simp add: less_char_def of_char_digit_char)

lemma append_less_same_length:
  "length a = length b \<Longrightarrow> a @ x < b @ y \<longleftrightarrow> a < b \<or> (a = b \<and> x < (y :: 'a :: linorder list))"
  by (induction a b rule: list_induct2) auto

lemma append_le_same_length:
  "length a = length b \<Longrightarrow> a @ x \<le> b @ y \<longleftrightarrow> a < b \<or> (a = b \<and> x \<le> (y :: 'a :: linorder list))"
  using append_less_same_length [of a b x y] by (auto simp: le_less)

lemma length_fixed_digits: "length (fixed_digits w n) = w"
  by (induction w arbitrary: n) auto

lemma fixed_digits_less:
  "n < 10 ^ w \<Longrightarrow> m < 10 ^ w \<Longrightarrow> fixed_digits w n < fixed_digits w m \<longleftrightarrow> n < m"
proof (induction w arbitrary: n m)
  case 0
  then show ?case by simp
next
  case (Suc w)
  have b: "n div 10 < 10 ^ w" "m div 10 < 10 ^ w" using Suc.prems by auto
  have d: "n mod 10 < 10" "m mod 10 < 10" by auto
  have eq: "fixed_digits w (n div 10) = fixed_digits w (m div 10) \<longleftrightarrow> n div 10 = m div 10"
    using Suc.IH [OF b] Suc.IH [OF b(2) b(1)] by (metis less_irrefl linorder_neqE_nat)
  have "fixed_digits (Suc w) n < fixed_digits (Suc w) m \<longleftrightarrow>
      n div 10 < m div 10 \<or> (n div 10 = m div 10 \<and> n mod 10 < m mod 10)"
    using Suc.IH [OF b] eq digit_char_less [OF d]
    by (simp add: append_less_same_length length_fixed_digits)
  also have "\<dots> \<longleftrightarrow> n < m"
  proof -
    define q1 r1 q2 r2 where "q1 = n div 10" and "r1 = n mod 10" and "q2 = m div 10" and "r2 = m mod 10"
    have "n = 10 * q1 + r1" "m = 10 * q2 + r2" "r1 < 10" "r2 < 10"
      by (simp_all add: q1_def r1_def q2_def r2_def)
    then have "(q1 < q2 \<or> (q1 = q2 \<and> r1 < r2)) \<longleftrightarrow> n < m" by arith
    then show ?thesis by (simp add: q1_def r1_def q2_def r2_def)
  qed
  finally show ?case .
qed

lemma fixed_digits_eq:
  "n < 10 ^ w \<Longrightarrow> m < 10 ^ w \<Longrightarrow> fixed_digits w n = fixed_digits w m \<longleftrightarrow> n = m"
  using fixed_digits_less [of n w m] fixed_digits_less [of m w n]
  by (metis less_irrefl linorder_neqE_nat)

lemma zpad_less: "n < 10 ^ w \<Longrightarrow> m < 10 ^ w \<Longrightarrow> zpad w n < zpad w m \<longleftrightarrow> n < m"
  by (simp add: zpad_def fixed_digits_less)

lemma zpad_eq: "n < 10 ^ w \<Longrightarrow> m < 10 ^ w \<Longrightarrow> zpad w n = zpad w m \<longleftrightarrow> n = m"
  by (simp add: zpad_def fixed_digits_eq)

lemma length_zpad: "n < 10 ^ w \<Longrightarrow> length (zpad w n) = w"
  by (simp add: zpad_def length_fixed_digits)

lemma prod_le_lex:
  "(a :: nat, b :: 'b :: linorder) \<le> (c, d) \<longleftrightarrow> a < c \<or> (a = c \<and> b \<le> d)"
  by auto

lemma microsecond_suffix_le:
  "u < 10 ^ 6 \<Longrightarrow> v < 10 ^ 6 \<Longrightarrow> microsecond_suffix u \<le> microsecond_suffix v \<longleftrightarrow> u \<le> v"
  using zpad_less [of u 6 v] zpad_eq [of u 6 v]
  by (auto simp: microsecond_suffix_def le_less)

text \<open>On datetimes the text order of \<^verbatim>\<open>isoformat()\<close> is the order of time.\<close>

lemma isoformat_le_iff:
  assumes "valid_datetime d1" "valid_datetime d2"
  shows "isoformat d1 \<le> isoformat d2 \<longleftrightarrow> dt_key d1 \<le> dt_key d2"
proof -
  have y: "dt_year d1 < 10 ^ 4" "dt_year d2 < 10 ^ 4"
    and mo: "dt_month d1 < 10 ^ 2" "dt_month d2 < 10 ^ 2"
    and da: "dt_day d1 < 10 ^ 2" "dt_day d2 < 10 ^ 2"
    and h: "dt_hour d1 < 10 ^ 2" "dt_hour d2 < 10 ^ 2"
    and mi: "dt_minute d1 < 10 ^ 2" "dt_minute d2 < 10 ^ 2"
    and se: "dt_second d1 < 10 ^ 2" "dt_second d2 < 10 ^ 2"
    and us: "dt_microsecond d1 < 10 ^ 6" "dt_microsecond d2 < 10 ^ 6"
    using assms by (simp_all add: valid_datetime_def)
  have iso: "isoformat d = zpad 4 (dt_year d) @ (''-'' @ (zpad 2 (dt_month d) @ (''-'' @ (zpad 2 (dt_day d) @
      (''T'' @ (zpad 2 (dt_hour d) @ ('':'' @ (zpad 2 (dt_minute d) @ ('':'' @ (zpad 2 (dt_second d) @
      microsecond_suffix (dt_microsecond d)))))))))))" for d
    by (simp add: isoformat_def)
  have "isoformat d1 \<le> isoformat d2 \<longleftrightarrow>
    dt_year d1 < dt_year d2 \<or> (dt_year d1 = dt_year d2 \<and>
    (dt_month d1 < dt_month d2 \<or> (dt_month d1 = dt_month d2 \<and>
    (dt_day d1 < dt_day d2 \<or> (dt_day d1 = dt_day d2 \<and>
    (dt_hour d1 < dt_hour d2 \<or> (dt_hour d1 = dt_hour d2 \<and>
    (dt_minute d1 < dt_minute d2 \<or> (dt_minute d1 = dt_minute d2 \<and>
    (dt_second d1 < dt_second d2 \<or> (dt_second d1 = dt_second d2 \<and>
     dt_microsecond d1 \<le> dt_microsecond d2)))))))))))"
    unfolding iso
    by (simp only: append_le_same_length length_zpad y mo da h mi se us
        zpad_less zpad_eq microsecond_suffix_le Cons_le_Cons append_Cons append_Nil simp_thms
        order_less_irrefl)
  also have "\<dots> \<longleftrightarrow> dt_key d1 \<le> dt_key d2"
    by (simp only: dt_key_def prod_le_lex)
  finally show ?thesis .
qed

lemma build_incident_packet_timeline:
  assumes "build_incident_packet s incident_id = Inr p"
  shows "pk_timeline p = sort_key te_time (insertion_order s incident_id)"
  using assms
  by (auto simp: build_incident_packet_def insertion_order_def timeline_loop_eq Let_def
      split: option.splits sum.splits prod.splits)

lemma filter_concat_map:
  "filter P (concat (map f xs)) = concat (map (\<lambda>x. filter P (f x)) xs)"
  by (induction xs) auto

lemma concat_map_split:
  "a \<in> set xs \<Longrightarrow> \<exists>pre post. concat (map f xs) = pre @ f a @ post"
proof (induction xs)
  case Nil
  then show ?case by simp
next
  case (Cons x xs)
  show ?case
  proof (cases "x = a")
    case True
    have "concat (map f (x # xs)) = [] @ f a @ concat (map f xs)" using True by simp
    then show ?thesis by blast
  next
    case False
    then obtain pre post where "concat (map f xs) = pre @ f a @ post" using Cons by auto
    then have "concat (map f (x # xs)) = (f x @ pre) @ f a @ post" by simp
    then show ?thesis by blast
  qed
qed

text \<open>
  Claim C5. In a packet that \<^verbatim>\<open>build_incident_packet\<close> returns, the timeline is sorted
  by its \<^verbatim>\<open>time\<close> strings, and this is the order of time: two consecutive entries that
  carry the ISO texts of two datetimes carry them in non-decreasing order. The sort is
  stable: the timeline is the sorted insertion-order list, and the entries of one
  timestamp stand as they were inserted. So an alert entry whose event is found with a
  dict payload and the same timestamp is followed at once by that event's entry among
  the entries of that timestamp.
\<close>

theorem timeline_sorted_stable:
  "build_incident_packet s incident_id = Inr p \<longrightarrow>
     sorted (map te_time (pk_timeline p)) \<and>
     (\<forall>i d1 d2. Suc i < length (pk_timeline p) \<and> valid_datetime d1 \<and> valid_datetime d2 \<and>
        te_time (pk_timeline p ! i) = safe_iso d1 \<and> te_time (pk_timeline p ! Suc i) = safe_iso d2
        \<longrightarrow> dt_key d1 \<le> dt_key d2) \<and>
     pk_timeline p = sort_key te_time (insertion_order s incident_id) \<and>
     (\<forall>k. same_time_group k (pk_timeline p) = same_time_group k (insertion_order s incident_id)) \<and>
     (\<forall>a ev. a \<in> set (linked_alerts s incident_id) \<and>
        map_of (events_by_id_of s (linked_alerts s incident_id)) (a_event_id a) = Some ev \<and>
        isinstance_dict (ev_raw ev) \<and> safe_iso (a_created_at a) = safe_iso (ev_received_at ev)
        \<longrightarrow> (\<exists>pre post. same_time_group (safe_iso (a_created_at a)) (pk_timeline p) =
               pre @ [alert_entry a, event_entry ev (summary_text (ev_raw ev))] @ post))"
proof
  assume built: "build_incident_packet s incident_id = Inr p"
  let ?ins = "insertion_order s incident_id"
  let ?als = "linked_alerts s incident_id"
  let ?d = "events_by_id_of s ?als"
  have tl: "pk_timeline p = sort_key te_time ?ins" using build_incident_packet_timeline [OF built] .
  have srt: "sorted (map te_time (pk_timeline p))" by (simp add: tl)
  have chrono: "dt_key d1 \<le> dt_key d2"
    if "Suc i < length (pk_timeline p)" "valid_datetime d1" "valid_datetime d2"
      "te_time (pk_timeline p ! i) = safe_iso d1" "te_time (pk_timeline p ! Suc i) = safe_iso d2"
    for i d1 d2
  proof -
    have "map te_time (pk_timeline p) ! i \<le> map te_time (pk_timeline p) ! Suc i"
      using srt that(1) by (intro sorted_nth_mono) auto
    then have "isoformat d1 \<le> isoformat d2" using that by (simp add: safe_iso_def)
    then show ?thesis using isoformat_le_iff that(2,3) by blast
  qed
  have stable: "same_time_group k (pk_timeline p) = same_time_group k ?ins" for k
    by (simp add: same_time_group_def tl sort_key_stable)
  have pair: "\<exists>pre post. same_time_group (safe_iso (a_created_at a)) (pk_timeline p) =
               pre @ [alert_entry a, event_entry ev (summary_text (ev_raw ev))] @ post"
    if a_in: "a \<in> set ?als" and rest: "map_of ?d (a_event_id a) = Some ev"
      "isinstance_dict (ev_raw ev)" "safe_iso (a_created_at a) = safe_iso (ev_received_at ev)"
    for a ev
  proof -
    let ?k = "safe_iso (a_created_at a)"
    let ?f = "\<lambda>a. filter (\<lambda>t. te_time t = ?k) (alert_entry a # companion_entries ?d a)"
    have grp: "same_time_group ?k ?ins = concat (map ?f ?als)"
      by (simp add: same_time_group_def insertion_order_def Let_def filter_concat_map)
    have "?f a = [alert_entry a, event_entry ev (summary_text (ev_raw ev))]"
      using rest by (simp add: companion_entries_def alert_entry_def event_entry_def)
    moreover obtain pre post where "concat (map ?f ?als) = pre @ ?f a @ post"
      using concat_map_split [OF a_in] by blast
    ultimately show ?thesis using stable [of ?k] grp by auto
  qed
  show "sorted (map te_time (pk_timeline p)) \<and>
     (\<forall>i d1 d2. Suc i < length (pk_timeline p) \<and> valid_datetime d1 \<and> valid_datetime d2 \<and>
        te_time (pk_timeline p ! i) = safe_iso d1 \<and> te_time (pk_timeline p ! Suc i) = safe_iso d2
        \<longrightarrow> dt_key d1 \<le> dt_key d2) \<and>
     pk_timeline p = sort_key te_time (insertion_order s incident_id) \<and>
     (\<forall>k. same_time_group k (pk_timeline p) = same_time_group k (insertion_order s incident_id)) \<and>
     (\<forall>a ev. a \<in> set (linked_alerts s incident_id) \<and>
        map_of (events_by_id_of s (linked_alerts s incident_id)) (a_event_id a) = Some ev \<and>
        isinstance_dict (ev_raw ev) \<and> safe_iso (a_created_at a) = safe_iso (ev_received_at ev)
        \<longrightarrow> (\<exists>pre post. same_time_group (safe_iso (a_created_at a)) (pk_timeline p) =
               pre @ [alert_entry a, event_entry ev (summary_text (ev_raw ev))] @ post))"
    using srt chrono tl stable pair by blast
qed

theorem timeline_sorted_stable_witness:
  "\<exists>p. build_incident_packet ex_linked ''inc-1'' = Inr p \<and>
     map te_type (pk_timeline p) = [''alert'', ''event''] \<and>
     map te_time (pk_timeline p) = [''2024-01-01T00:00:00'', ''2024-01-01T00:00:00''] \<and>
     sorted (map te_time (pk_timeline p)) \<and>
     pk_timeline p = sort_key te_time (insertion_order ex_linked ''inc-1'')"
proof -
  have built: "(case build_incident_packet ex_linked ''inc-1'' of
      Inl e \<Rightarrow> None
    | Inr p \<Rightarrow> Some (map te_type (pk_timeline p), map te_time (pk_timeline p)))
      = Some ([''alert'', ''event''], [''2024-01-01T00:00:00'', ''2024-01-01T00:00:00''])"
    by code_simp
  then obtain p where p: "build_incident_packet ex_linked ''inc-1'' = Inr p"
      "map te_type (pk_timeline p) = [''alert'', ''event'']"
      "map te_time (pk_timeline p) = [''2024-01-01T00:00:00'', ''2024-01-01T00:00:00'']"
    by (cases "build_incident_packet ex_linked ''inc-1''") auto
  from timeline_sorted_stable [of ex_linked "''inc-1''" p] p(1)
  have s: "sorted (map te_time (pk_timeline p))"
    and t: "pk_timeline p = sort_key te_time (insertion_order ex_linked ''inc-1'')"
    by blast+
  show ?thesis by (rule exI [of _ p]) (intro conjI p s t)
qed

section \<open>Evidence\<close>

lemma write_packet_evidence_new:
  assumes "evidence_rows s incident_id (sha (packet_payload packet)) = []"
  shows "\<exists>ef. evidence_files (snd (write_packet_evidence sha s incident_id packet)) = evidence_files s @ [ef] \<and>
           ef_incident_id ef = incident_id \<and> ef_filename ef = packet_filename incident_id \<and>
           ef_sha256 ef = sha (packet_payload packet)"
proof -
  have "find (\<lambda>e. ef_incident_id e = incident_id \<and> ef_filename e = packet_filename incident_id
                 \<and> ef_sha256 e = sha (packet_payload packet)) (evidence_files s) = None"
    using assms by (simp add: find_None_filter evidence_rows_def)
  then show ?thesis by (simp add: write_packet_evidence_def Let_def uuid4_def)
qed

lemma write_packet_evidence_existing:
  assumes "evidence_rows s incident_id (sha (packet_payload packet)) \<noteq> []"
  shows "evidence_files (snd (write_packet_evidence sha s incident_id packet)) = evidence_files s"
proof -
  have "find (\<lambda>e. ef_incident_id e = incident_id \<and> ef_filename e = packet_filename incident_id
                 \<and> ef_sha256 e = sha (packet_payload packet)) (evidence_files s) \<noteq> None"
    using assms by (simp add: find_None_filter evidence_rows_def)
  then show ?thesis by (auto simp: write_packet_evidence_def Let_def)
qed

lemma evidence_rows_after_write:
  "evidence_rows (snd (write_packet_evidence sha s incident_id packet)) incident_id h =
     (if h = sha (packet_payload packet) \<and> evidence_rows s incident_id h = []
      then [last (evidence_files (snd (write_packet_evidence sha s incident_id packet)))]
      else evidence_rows s incident_id h)"
proof (cases "evidence_rows s incident_id (sha (packet_payload packet)) = []")
  case True
  obtain ef where ef: "evidence_files (snd (write_packet_evidence sha s incident_id packet)) = evidence_files s @ [ef]"
      "ef_incident_id ef = incident_id" "ef_filename ef = packet_filename incident_id"
      "ef_sha256 ef = sha (packet_payload packet)"
    using True write_packet_evidence_new [where sha = sha and packet = packet and s = s] by blast
  then show ?thesis using True by (auto simp: evidence_rows_def)
next
  case False
  then show ?thesis
    using write_packet_evidence_existing [where sha = sha and packet = packet and s = s]
    by (auto simp: evidence_rows_def)
qed

lemma evidence_files_grow:
  "\<exists>new. evidence_files (snd (write_packet_evidence sha s incident_id packet)) = evidence_files s @ new"
proof (cases "evidence_rows s incident_id (sha (packet_payload packet)) = []")
  case True
  then show ?thesis
    using write_packet_evidence_new [where sha = sha and packet = packet and s = s] by blast
next
  case False
  then show ?thesis
    using write_packet_evidence_existing [where sha = sha and packet = packet and s = s] by simp
qed

lemma manifest_set:
  "set (fst (write_packet_evidence sha s incident_id packet)) =
     set (evidence_of (snd (write_packet_evidence sha s incident_id packet)) incident_id)"
  by (simp add: write_packet_evidence_def Let_def order_desc_def evidence_of_def
      split: option.splits prod.splits)

text \<open>
  Claim C4. The digest is a parameter of the model. When the store has at most one
  evidence row for (incident_id, filename, digest of the packet), writing the same
  packet twice leaves exactly one such row, and the second write adds no row. When two
  packets have different digests, writing the one and then the other leaves a row for
  each, two distinct rows, both in the returned manifest, and every row the store had
  before is still there, in front.
\<close>

theorem evidence_write_idempotent:
  "(length (evidence_rows s incident_id (sha (packet_payload p))) \<le> 1 \<longrightarrow>
      (let s1 = snd (write_packet_evidence sha s incident_id p);
           s2 = snd (write_packet_evidence sha s1 incident_id p)
       in length (evidence_rows s2 incident_id (sha (packet_payload p))) = 1 \<and>
          evidence_files s2 = evidence_files s1)) \<and>
   (sha (packet_payload p) \<noteq> sha (packet_payload q) \<longrightarrow>
      (let s1 = snd (write_packet_evidence sha s incident_id p);
           r2 = write_packet_evidence sha s1 incident_id q
       in (\<exists>e1 e2. e1 \<in> set (evidence_rows (snd r2) incident_id (sha (packet_payload p))) \<and>
                   e2 \<in> set (evidence_rows (snd r2) incident_id (sha (packet_payload q))) \<and>
                   e1 \<noteq> e2 \<and> e1 \<in> set (fst r2) \<and> e2 \<in> set (fst r2)) \<and>
          (\<exists>new. evidence_files (snd r2) = evidence_files s @ new)))"
proof -
  let ?hp = "sha (packet_payload p)" and ?hq = "sha (packet_payload q)"
  let ?s1 = "snd (write_packet_evidence sha s incident_id p)"
  have rows1: "evidence_rows ?s1 incident_id ?hp \<noteq> []"
    by (simp add: evidence_rows_after_write)
  have once: "length (evidence_rows ?s1 incident_id ?hp) = 1"
    if "length (evidence_rows s incident_id ?hp) \<le> 1"
    using that by (cases "evidence_rows s incident_id ?hp") (auto simp: evidence_rows_after_write)
  have same: "evidence_files (snd (write_packet_evidence sha ?s1 incident_id p)) = evidence_files ?s1"
    using rows1 write_packet_evidence_existing [where sha = sha and packet = p and s = ?s1] by blast
  have a: "length (evidence_rows (snd (write_packet_evidence sha ?s1 incident_id p)) incident_id ?hp) = 1"
    if "length (evidence_rows s incident_id ?hp) \<le> 1"
    using once [OF that] rows1 by (simp add: evidence_rows_after_write)
  have b: "(\<exists>e1 e2. e1 \<in> set (evidence_rows (snd r2) incident_id ?hp) \<and>
                   e2 \<in> set (evidence_rows (snd r2) incident_id ?hq) \<and>
                   e1 \<noteq> e2 \<and> e1 \<in> set (fst r2) \<and> e2 \<in> set (fst r2)) \<and>
          (\<exists>new. evidence_files (snd r2) = evidence_files s @ new)"
    if diff: "?hp \<noteq> ?hq" and r2: "r2 = write_packet_evidence sha ?s1 incident_id q" for r2
  proof -
    have p_rows: "evidence_rows (snd r2) incident_id ?hp \<noteq> []"
      using rows1 diff by (simp add: r2 evidence_rows_after_write)
    have q_rows: "evidence_rows (snd r2) incident_id ?hq \<noteq> []"
      by (simp add: r2 evidence_rows_after_write)
    obtain e1 e2 where e: "e1 \<in> set (evidence_rows (snd r2) incident_id ?hp)"
        "e2 \<in> set (evidence_rows (snd r2) incident_id ?hq)"
      using p_rows q_rows by (meson last_in_set)
    then have "ef_sha256 e1 = ?hp" "ef_sha256 e2 = ?hq" by (auto simp: evidence_rows_def)
    then have ne: "e1 \<noteq> e2" using diff by auto
    have "e1 \<in> set (evidence_of (snd r2) incident_id)" "e2 \<in> set (evidence_of (snd r2) incident_id)"
      using e by (auto simp: evidence_rows_def evidence_of_def)
    then have m: "e1 \<in> set (fst r2)" "e2 \<in> set (fst r2)" by (simp_all add: r2 manifest_set)
    obtain n1 where "evidence_files ?s1 = evidence_files s @ n1" using evidence_files_grow by blast
    moreover obtain n2 where "evidence_files (snd r2) = evidence_files ?s1 @ n2"
      unfolding r2 using evidence_files_grow by blast
    ultimately have "evidence_files (snd r2) = evidence_files s @ (n1 @ n2)" by simp
    then show ?thesis using e ne m by blast
  qed
  show ?thesis using a same b by (simp add: Let_def)
qed

theorem evidence_write_idempotent_witness:
  "length (evidence_rows ex_linked ''inc-1'' (packet_payload (JObj [(''n'', JInt 1)]))) \<le> 1 \<and>
   packet_payload (JObj [(''n'', JInt 1)]) \<noteq> packet_payload (JObj [(''n'', JInt 2)]) \<and>
   (let s1 = snd (write_packet_evidence (\<lambda>x. x) ex_linked ''inc-1'' (JObj [(''n'', JInt 1)]));
        s2 = snd (write_packet_evidence (\<lambda>x. x) s1 ''inc-1'' (JObj [(''n'', JInt 1)]))
    in length (evidence_rows s2 ''inc-1'' (packet_payload (JObj [(''n'', JInt 1)]))) = 1 \<and>
       evidence_files s2 = evidence_files s1) \<and>
   (let s1 = snd (write_packet_evidence (\<lambda>x. x) ex_linked ''inc-1'' (JObj [(''n'', JInt 1)]));
        r2 = write_packet_evidence (\<lambda>x. x) s1 ''inc-1'' (JObj [(''n'', JInt 2)])
    in (\<exists>e1 e2. e1 \<in> set (evidence_rows (snd r2) ''inc-1'' (packet_payload (JObj [(''n'', JInt 1)]))) \<and>
                e2 \<in> set (evidence_rows (snd r2) ''inc-1'' (packet_payload (JObj [(''n'', JInt 2)]))) \<and>
                e1 \<noteq> e2 \<and> e1 \<in> set (fst r2) \<and> e2 \<in> set (fst r2)) \<and>
       (\<exists>new. evidence_files (snd r2) = evidence_files ex_linked @ new))"
proof -
  have few: "length (evidence_rows ex_linked ''inc-1'' (packet_payload (JObj [(''n'', JInt 1)]))) \<le> 1"
    by code_simp
  have diff: "packet_payload (JObj [(''n'', JInt 1)]) \<noteq> packet_payload (JObj [(''n'', JInt 2)])"
    by code_simp
  from evidence_write_idempotent [where sha = "\<lambda>x. x" and s = ex_linked and incident_id = "''inc-1''"
      and p = "JObj [(''n'', JInt 1)]" and q = "JObj [(''n'', JInt 2)]"] few diff
  show ?thesis by blast
qed

section \<open>Incident handlers\<close>







lemma foldl_delete_link:
  "foldl session_delete_link s xs =
     s\<lparr>incident_alerts :=
         filter (\<lambda>l. (ia_incident_id l, ia_alert_id l) \<notin> (\<lambda>x. (ia_incident_id x, ia_alert_id x)) ` set xs)
           (incident_alerts s)\<rparr>"
proof (induction xs arbitrary: s)
  case Nil
  show ?case by simp
next
  case (Cons x xs)
  show ?case unfolding foldl_Cons Cons.IH
    by (simp add: session_delete_link_def)
qed

lemma foldl_delete_action:
  "foldl session_delete_action s xs =
     s\<lparr>incident_actions := filter (\<lambda>c. act_id c \<notin> act_id ` set xs) (incident_actions s)\<rparr>"
proof (induction xs arbitrary: s)
  case Nil
  show ?case by simp
next
  case (Cons x xs)
  show ?case unfolding foldl_Cons Cons.IH
    by (simp add: session_delete_action_def)
qed

lemma children_deleted:
  "links_of (delete_incident_children s incident_id) incident_id = [] \<and>
   actions_of (delete_incident_children s incident_id) incident_id = [] \<and>
   incidents (delete_incident_children s incident_id) = incidents s \<and>
   evidence_files (delete_incident_children s incident_id) = evidence_files s"
  by (auto simp: delete_incident_children_def Let_def foldl_delete_link foldl_delete_action
      links_of_def actions_of_def filter_empty_conv image_iff)

text \<open>
  Claim C8, as stated, fails: \<^verbatim>\<open>delete_incident\<close> deletes the links, the actions and
  the incident, and no EvidenceFile row. A row of evidence recorded for the incident
  still carries its id after the delete.
\<close>

theorem delete_incident_orphan_counterexample:
  "delete_incident ex_linked ''inc-1'' = Inr (''deleted'', ex_linked_deleted) \<and>
   evidence_of ex_linked_deleted ''inc-1'' = [ex_evidence] \<and>
   references_incident ex_linked_deleted ''inc-1''"
  by code_simp

text \<open>
  Claim C8, amended. Deleting an incident that exists succeeds. The links and the
  actions of the incident are deleted first: in the store the two loops leave, the
  incident is still there and no IncidentAlert or IncidentAction row carries its id.
  Then the incident row is deleted. In the final store no IncidentAlert or
  IncidentAction row carries the id, the incident is gone and \<^verbatim>\<open>get_incident\<close> answers
  404. The EvidenceFile rows of the incident are kept as they were.
\<close>

theorem delete_incident_cascades:
  "incident_exists s incident_id \<longrightarrow>
     (\<exists>inc s'. find (\<lambda>i. inc_id i = incident_id) (incidents s) = Some inc \<and>
        delete_incident s incident_id = Inr (''deleted'', s') \<and>
        s' = session_delete_incident (delete_incident_children s incident_id) inc \<and>
        incident_exists (delete_incident_children s incident_id) incident_id \<and>
        links_of (delete_incident_children s incident_id) incident_id = [] \<and>
        actions_of (delete_incident_children s incident_id) incident_id = [] \<and>
        links_of s' incident_id = [] \<and> actions_of s' incident_id = [] \<and>
        \<not> incident_exists s' incident_id \<and>
        get_incident s' incident_id = Inl (HTTPException 404 ''incident not found'') \<and>
        evidence_of s' incident_id = evidence_of s incident_id)"
proof
  assume ex: "incident_exists s incident_id"
  let ?c = "delete_incident_children s incident_id"
  obtain inc where inc: "find (\<lambda>i. inc_id i = incident_id) (incidents s) = Some inc"
    using ex find_incident_None [of incident_id s] by auto
  then have id: "inc_id inc = incident_id" by (auto simp: find_Some_iff)
  let ?s' = "session_delete_incident ?c inc"
  have del: "delete_incident s incident_id = Inr (''deleted'', ?s')"
    using inc by (simp add: delete_incident_def)
  have c: "links_of ?c incident_id = []" "actions_of ?c incident_id = []"
      "incidents ?c = incidents s" "evidence_files ?c = evidence_files s"
    using children_deleted [of s incident_id] by auto
  have still: "incident_exists ?c incident_id" using ex c(3) by (simp add: incident_exists_def)
  have l: "links_of ?s' incident_id = []" using c(1)
    by (simp add: links_of_def session_delete_incident_def)
  have a: "actions_of ?s' incident_id = []" using c(2)
    by (simp add: actions_of_def session_delete_incident_def)
  have gone: "\<not> incident_exists ?s' incident_id"
    using id by (auto simp: incident_exists_def session_delete_incident_def)
  then have nf: "get_incident ?s' incident_id = Inl (HTTPException 404 ''incident not found'')"
    using find_incident_None [of incident_id ?s'] by (simp add: get_incident_def)
  have ev: "evidence_of ?s' incident_id = evidence_of s incident_id"
    using c(4) by (simp add: evidence_of_def session_delete_incident_def)
  show "\<exists>inc s'. find (\<lambda>i. inc_id i = incident_id) (incidents s) = Some inc \<and>
        delete_incident s incident_id = Inr (''deleted'', s') \<and>
        s' = session_delete_incident (delete_incident_children s incident_id) inc \<and>
        incident_exists (delete_incident_children s incident_id) incident_id \<and>
        links_of (delete_incident_children s incident_id) incident_id = [] \<and>
        actions_of (delete_incident_children s incident_id) incident_id = [] \<and>
        links_of s' incident_id = [] \<and> actions_of s' incident_id = [] \<and>
        \<not> incident_exists s' incident_id \<and>
        get_incident s' incident_id = Inl (HTTPException 404 ''incident not found'') \<and>
        evidence_of s' incident_id = evidence_of s incident_id"
    using inc del still c(1,2) l a gone nf ev by blast
qed

theorem delete_incident_cascades_witness:
  "incident_exists ex_linked ''inc-1'' \<and>
   length (links_of ex_linked ''inc-1'') = 1 \<and> length (actions_of ex_linked ''inc-1'') = 1 \<and>
   (\<exists>s'. delete_incident ex_linked ''inc-1'' = Inr (''deleted'', s') \<and>
      links_of s' ''inc-1'' = [] \<and> actions_of s' ''inc-1'' = [] \<and>
      get_incident s' ''inc-1'' = Inl (HTTPException 404 ''incident not found'') \<and>
      evidence_of s' ''inc-1'' = evidence_of ex_linked ''inc-1'')"
proof -
  have ex: "incident_exists ex_linked ''inc-1''" by code_simp
  have before: "length (links_of ex_linked ''inc-1'') = 1" "length (actions_of ex_linked ''inc-1'') = 1"
    by code_simp+
  from delete_incident_cascades [of ex_linked "''inc-1''"] ex before show ?thesis by blast
qed

end
